theory Spec2Isabelle
  imports Main "HOL-Library.Multiset"
begin

section \<open>Values crossing the HTTP and SQL boundaries\<close>

text \<open>
  The handlers of \<^verbatim>\<open>server.ts\<close> read the fields of \<^verbatim>\<open>req.body\<close>, which
  \<^verbatim>\<open>express.json()\<close> parsed from JSON, so a field is absent (\<^verbatim>\<open>undefined\<close>)
  or any JSON value. Numbers are modelled as integers (fractions and the negative zero
  are outside the model).
  \<open>JArr\<close> is an array with its elements; \<open>JObject\<close> stands for every other object:
  nothing in the handlers or the driver looks at its members.
\<close>

datatype jsval =
  JUndefined | JNull | JBool bool | JNum int | JStr string | JArr "jsval list" | JObject

text \<open>JavaScript truthiness, as used by \<^verbatim>\<open>!x\<close>, \<^verbatim>\<open>x || d\<close> and \<^verbatim>\<open>x ? 1 : 0\<close>.\<close>

fun truthy :: "jsval \<Rightarrow> bool" where
  "truthy JUndefined = False"
| "truthy JNull = False"
| "truthy (JBool b) = b"
| "truthy (JNum n) = (n \<noteq> 0)"
| "truthy (JStr s) = (s \<noteq> [])"
| "truthy (JArr xs) = True"
| "truthy JObject = True"

text \<open>\<^verbatim>\<open>x || d\<close>: the left operand when it is truthy, else the right one.\<close>

definition js_or :: "jsval \<Rightarrow> jsval \<Rightarrow> jsval" where
  "js_or x d = (if truthy x then x else d)"

text \<open>
  SQL values: NULL, an INTEGER, a REAL (only those with an integer value occur) and TEXT.
\<close>

datatype sqlval = SNull | SInt int | SReal int | SText string

text \<open>
  Binding one value to one parameter in the database driver: \<^verbatim>\<open>undefined\<close> and
  \<^verbatim>\<open>null\<close> become NULL, a number is bound as a double, a string as text, and
  every other value is refused (\<open>None\<close>).
\<close>

fun bind :: "jsval \<Rightarrow> sqlval option" where
  "bind JUndefined = Some SNull"
| "bind JNull = Some SNull"
| "bind (JNum n) = Some (SReal n)"
| "bind (JStr s) = Some (SText s)"
| "bind (JBool b) = None"
| "bind (JArr xs) = None"
| "bind JObject = None"

fun is_array :: "jsval \<Rightarrow> bool" where
  "is_array (JArr xs) = True"
| "is_array v = False"

text \<open>
  Binding the arguments of \<^verbatim>\<open>stmt.run(...)\<close>. The driver walks the arguments in
  order: an array argument is spread, each element taking the next parameter; a plain
  object carries named parameters, of which the statements here have none, so it binds
  nothing, and a second one is refused; any other argument takes the next parameter.
\<close>

datatype slot = Anon jsval | Named

fun spread :: "jsval \<Rightarrow> slot list" where
  "spread (JArr xs) = map Anon xs"
| "spread JObject = [Named]"
| "spread v = [Anon v]"

definition unsupported_msg :: string where
  "unsupported_msg = ''SQLite3 can only bind numbers, strings, bigints, buffers, and null''"

definition too_many_msg :: string where
  "too_many_msg = ''Too many parameter values were provided''"

definition too_few_msg :: string where
  "too_few_msg = ''Too few parameter values were provided''"

definition two_objects_msg :: string where
  "two_objects_msg = ''You cannot specify named parameters in two different objects''"

text \<open>
  \<open>limit\<close> is the number of parameters that may still be taken by these slots,
  \<open>seen\<close> tells whether a plain object has occurred, \<open>acc\<close> holds the values bound so
  far. The first failure throws: a value of an unsupported type, a value past the last
  parameter, a second plain object.
\<close>

fun bind_slots :: "nat \<Rightarrow> bool \<Rightarrow> sqlval list \<Rightarrow> slot list \<Rightarrow> string + sqlval list" where
  "bind_slots limit seen acc [] = Inr acc"
| "bind_slots limit seen acc (Named # r) =
     (if seen then Inl two_objects_msg else bind_slots limit True acc r)"
| "bind_slots limit seen acc (Anon v # r) =
     (case bind v of
        None \<Rightarrow> Inl unsupported_msg
      | Some x \<Rightarrow> if limit \<le> length acc then Inl too_many_msg
                  else bind_slots limit seen (acc @ [x]) r)"

text \<open>
  \<open>bind_args n after args\<close>: the arguments \<open>args\<close> are to fill \<open>n\<close> parameters and
  are followed in the call by \<open>after\<close> arguments that are a number or a string and
  fill one parameter each. The call throws unless \<open>args\<close> yield exactly \<open>n\<close> values:
  with more, one of the values or of the arguments that follow is past the last
  parameter; with fewer, parameters are left over when the arguments end.
\<close>

definition bind_args :: "nat \<Rightarrow> nat \<Rightarrow> jsval list \<Rightarrow> string + sqlval list" where
  "bind_args n after args =
     (case bind_slots (n + after) False [] (concat (map spread args)) of
        Inl m \<Rightarrow> Inl m
      | Inr vs \<Rightarrow> if length vs < n then Inl too_few_msg
                  else if n < length vs then Inl too_many_msg
                  else Inr vs)"

text \<open>Decimal digits.\<close>

definition digit_char :: "nat \<Rightarrow> char" where
  "digit_char d = ''0123456789'' ! (d mod 10)"

fun show_nat :: "nat \<Rightarrow> string" where
  "show_nat n = (if n < 10 then [digit_char n]
                 else show_nat (n div 10) @ [digit_char (n mod 10)])"

definition show_int :: "int \<Rightarrow> string" where
  "show_int i = (if i < 0 then CHR ''-'' # show_nat (nat (- i)) else show_nat (nat i))"

text \<open>
  A column declared \<^verbatim>\<open>TEXT\<close> stores a number as its text: an INTEGER as its
  decimal digits, a REAL in the text form the engine gives it. That form is the
  engine's and not in \<^verbatim>\<open>server.ts\<close>; it is the parameter \<open>rt\<close>, which maps the
  (integer) value of the REAL to its text.
\<close>

fun text_affinity :: "(int \<Rightarrow> string) \<Rightarrow> sqlval \<Rightarrow> sqlval" where
  "text_affinity rt (SInt n) = SText (show_int n)"
| "text_affinity rt (SReal n) = SText (rt n)"
| "text_affinity rt v = v"

text \<open>
  A path parameter (\<^verbatim>\<open>req.params.id\<close>, \<^verbatim>\<open>req.params.taskId\<close>) is a string. Compared
  with or stored into an \<^verbatim>\<open>INTEGER\<close> column it is converted to an integer when the
  text is a number with an integer value; otherwise it equals no integer (\<open>PText\<close>).
  \<open>param\<close> is the parameter after that conversion.
\<close>

datatype param = PInt int | PText string

fun param_val :: "param \<Rightarrow> sqlval" where
  "param_val (PInt i) = SInt i"
| "param_val (PText x) = SText x"

text \<open>\<^verbatim>\<open>WHERE id = ?\<close> against the integer primary key.\<close>

fun id_matches :: "param \<Rightarrow> int \<Rightarrow> bool" where
  "id_matches (PInt i) k = (k = i)"
| "id_matches (PText x) k = False"

text \<open>A response with an error status: the HTTP status and the error text.\<close>

datatype error = HttpError nat string

datatype ack = Success

section \<open>The persisted schema\<close>

text \<open>
  One record per table of the \<^verbatim>\<open>CREATE TABLE\<close> statements. \<open>created_at\<close> is the
  \<^verbatim>\<open>CURRENT_TIMESTAMP\<close> text \<^verbatim>\<open>YYYY-MM-DD HH:MM:SS\<close> (UTC); the model holds the
  instant in seconds, whose order is the order of those texts. \<open>completed\<close> is an
  \<^verbatim>\<open>INTEGER\<close> column that the code only ever writes with the literals 0 and 1.
\<close>

record user_row =
  u_id :: int
  email :: sqlval
  password :: sqlval
  name :: sqlval
  avatar_url :: sqlval

record task_row =
  t_id :: int
  user_id :: int
  title :: sqlval
  description :: sqlval
  priority :: sqlval
  category :: sqlval
  due_date :: sqlval
  completed :: int
  created_at :: int

record subtask_row =
  s_id :: int
  task_id :: sqlval
  s_title :: sqlval
  s_completed :: int

text \<open>
  The database: the three tables in rowid order, the \<^verbatim>\<open>AUTOINCREMENT\<close> counters
  (\<^verbatim>\<open>sqlite_sequence\<close>), and two facts about the engine behind the connection: its
  \<^verbatim>\<open>foreign_keys\<close> setting and the text form it gives a REAL (\<open>real_text\<close>).
  \<^verbatim>\<open>server.ts\<close> opens the connection with \<^verbatim>\<open>new Database(dbPath)\<close> and never issues
  a \<^verbatim>\<open>PRAGMA foreign_keys\<close>, so the setting is the driver's default; the bundled
  engine of better-sqlite3 is built with \<^verbatim>\<open>SQLITE_DEFAULT_FOREIGN_KEYS=1\<close>, which is
  what \<open>open_db\<close> records. No handler changes either of the two.
\<close>

record db =
  foreign_keys :: bool
  real_text :: "int \<Rightarrow> string"
  users :: "user_row list"
  users_seq :: int
  tasks :: "task_row list"
  tasks_seq :: int
  subtasks :: "subtask_row list"
  subtasks_seq :: int

definition open_db :: "(int \<Rightarrow> string) \<Rightarrow> db" where
  "open_db rt = \<lparr>foreign_keys = True, real_text = rt, users = [], users_seq = 0,
                 tasks = [], tasks_seq = 0, subtasks = [], subtasks_seq = 0\<rparr>"

text \<open>
  \<^verbatim>\<open>INTEGER PRIMARY KEY AUTOINCREMENT\<close>: the new rowid is one more than the largest
  rowid the table has ever held.
\<close>

definition next_id :: "int \<Rightarrow> int list \<Rightarrow> int" where
  "next_id seq ids = fold max ids seq + 1"

section \<open>Registration\<close>

text \<open>\<^verbatim>\<open>email.split("@")[0]\<close>; only a string has \<^verbatim>\<open>split\<close>.\<close>

fun local_part :: "jsval \<Rightarrow> jsval option" where
  "local_part (JStr e) = Some (JStr (takeWhile (\<lambda>c. c \<noteq> CHR ''@'') e))"
| "local_part v = None"

text \<open>
  \<^verbatim>\<open>POST /api/register\<close>. \<open>hash\<close> is \<^verbatim>\<open>bcrypt.hash(_, 10)\<close> with the salt drawn for
  this call; it rejects a password that is not a string. The statement is run with the
  three arguments \<^verbatim>\<open>email, hashedPassword, name || email.split("@")[0]\<close>. Every
  exception inside the \<^verbatim>\<open>try\<close> block other than the \<^verbatim>\<open>UNIQUE\<close> violation is
  answered with 500. \<^verbatim>\<open>UNIQUE\<close> does not compare NULL with anything.
\<close>

definition register :: "(string \<Rightarrow> string) \<Rightarrow> jsval \<Rightarrow> jsval \<Rightarrow> jsval \<Rightarrow> db \<Rightarrow> (error + int) \<times> db" where
  "register hash em pw nm s =
     (if \<not> truthy em \<or> \<not> truthy pw
      then (Inl (HttpError 400 ''Email and password required''), s)
      else case pw of
        JStr p \<Rightarrow>
          (case (if truthy nm then Some nm else local_part em) of
             None \<Rightarrow> (Inl (HttpError 500 ''Registration failed''), s)
           | Some n \<Rightarrow>
              (case bind_args 3 0 [em, JStr (hash p), n] of
                 Inr [e, h, n'] \<Rightarrow>
                   if text_affinity (real_text s) e \<noteq> SNull \<and>
                      text_affinity (real_text s) e \<in> set (map email (users s))
                   then (Inl (HttpError 400 ''Email already exists''), s)
                   else
                     let i = next_id (users_seq s) (map u_id (users s));
                         row = \<lparr>u_id = i, email = text_affinity (real_text s) e,
                                password = text_affinity (real_text s) h,
                                name = text_affinity (real_text s) n', avatar_url = SNull\<rparr>
                     in (Inr i, s\<lparr>users := users s @ [row], users_seq := i\<rparr>)
               | _ \<Rightarrow> (Inl (HttpError 500 ''Registration failed''), s)))
      | _ \<Rightarrow> (Inl (HttpError 500 ''Registration failed''), s))"

section \<open>The task store\<close>

text \<open>
  The handlers below run behind \<^verbatim>\<open>authenticate\<close>; \<open>owner\<close> is \<^verbatim>\<open>req.user.id\<close> of
  the verified token, a number. They are synchronous and have no \<^verbatim>\<open>try\<close>: an
  exception of the driver reaches the framework's default error handler, which answers
  500 with the exception's message. A statement that fails leaves the database as it
  was.
\<close>

record task_body =
  b_title :: jsval
  b_description :: jsval
  b_priority :: jsval
  b_category :: jsval
  b_due_date :: jsval
  b_completed :: jsval

definition fk_error :: error where
  "fk_error = HttpError 500 ''FOREIGN KEY constraint failed''"

definition not_null_error :: "string \<Rightarrow> error" where
  "not_null_error col = HttpError 500 (''NOT NULL constraint failed: '' @ col)"

text \<open>The body of the response of \<^verbatim>\<open>POST /api/tasks\<close>.\<close>

record created_task =
  c_id :: int
  c_title :: jsval
  c_completed :: int
  c_subtasks :: "subtask_row list"

text \<open>
  \<^verbatim>\<open>POST /api/tasks\<close>. The statement has six parameters; \<^verbatim>\<open>req.user.id\<close> comes
  first and takes the first, the five arguments from the body are to fill the other
  five. \<open>now\<close> is \<^verbatim>\<open>CURRENT_TIMESTAMP\<close>, the column default of \<^verbatim>\<open>created_at\<close>;
  \<^verbatim>\<open>completed\<close> takes its column default 0. The handler checks nothing itself: what
  is refused is refused by the driver or by a constraint of the table
  (\<^verbatim>\<open>title TEXT NOT NULL\<close>, \<^verbatim>\<open>FOREIGN KEY(user_id) REFERENCES users(id)\<close>). The last
  case cannot occur: \<open>bind_args 5\<close> returns five values.
\<close>

definition create_task :: "int \<Rightarrow> int \<Rightarrow> task_body \<Rightarrow> db \<Rightarrow> (error + created_task) \<times> db" where
  "create_task now owner b s =
     (case bind_args 5 0 [b_title b, b_description b, js_or (b_priority b) (JStr ''medium''),
                          js_or (b_category b) (JStr ''General''), b_due_date b] of
        Inl m \<Rightarrow> (Inl (HttpError 500 m), s)
      | Inr [ti, de, pr, ca, du] \<Rightarrow>
          if ti = SNull then (Inl (not_null_error ''tasks.title''), s)
          else if foreign_keys s \<and> owner \<notin> set (map u_id (users s)) then (Inl fk_error, s)
          else
            let i = next_id (tasks_seq s) (map t_id (tasks s));
                row = \<lparr>t_id = i, user_id = owner, title = text_affinity (real_text s) ti,
                       description = text_affinity (real_text s) de,
                       priority = text_affinity (real_text s) pr,
                       category = text_affinity (real_text s) ca,
                       due_date = text_affinity (real_text s) du,
                       completed = 0, created_at = now\<rparr>
            in (Inr \<lparr>c_id = i, c_title = b_title b, c_completed = 0, c_subtasks = []\<rparr>,
                s\<lparr>tasks := tasks s @ [row], tasks_seq := i\<rparr>)
      | Inr _ \<Rightarrow> (Inl (HttpError 500 too_few_msg), s))"

text \<open>\<^verbatim>\<open>WHERE id = ? AND user_id = ?\<close>\<close>

definition owned_match :: "int \<Rightarrow> param \<Rightarrow> task_row \<Rightarrow> bool" where
  "owned_match owner p t = (id_matches p (t_id t) \<and> user_id t = owner)"

text \<open>\<^verbatim>\<open>completed ? 1 : 0\<close>\<close>

definition coerce_flag :: "jsval \<Rightarrow> int" where
  "coerce_flag v = (if truthy v then 1 else 0)"

text \<open>\<^verbatim>\<open>SET title = ?, description = ?, priority = ?, category = ?, due_date = ?, completed = ?\<close>\<close>

definition set_fields ::
  "(int \<Rightarrow> string) \<Rightarrow> sqlval \<Rightarrow> sqlval \<Rightarrow> sqlval \<Rightarrow> sqlval \<Rightarrow> sqlval \<Rightarrow> int \<Rightarrow> task_row \<Rightarrow> task_row" where
  "set_fields rt ti de pr ca du c t =
     t\<lparr>title := text_affinity rt ti, description := text_affinity rt de,
       priority := text_affinity rt pr, category := text_affinity rt ca,
       due_date := text_affinity rt du, completed := c\<rparr>"

text \<open>
  \<^verbatim>\<open>PUT /api/tasks/:id\<close>. The statement has eight parameters: the five arguments
  from the body are to fill the first five, and \<^verbatim>\<open>completed ? 1 : 0\<close>, \<^verbatim>\<open>id\<close> and
  \<^verbatim>\<open>req.user.id\<close> follow, so whenever the call binds, the flag is the sixth value and
  the id and the owner are the last two. The \<^verbatim>\<open>NOT NULL\<close> constraint of
  \<^verbatim>\<open>title\<close> is checked on the rows the statement updates, so it cannot fail when
  no row matches. The last case cannot occur.
\<close>

definition update_task :: "int \<Rightarrow> param \<Rightarrow> task_body \<Rightarrow> db \<Rightarrow> (error + ack) \<times> db" where
  "update_task owner p b s =
     (case bind_args 5 3 [b_title b, b_description b, b_priority b, b_category b, b_due_date b] of
        Inl m \<Rightarrow> (Inl (HttpError 500 m), s)
      | Inr [ti, de, pr, ca, du] \<Rightarrow>
          if ti = SNull \<and> (\<exists>t \<in> set (tasks s). owned_match owner p t)
          then (Inl (not_null_error ''tasks.title''), s)
          else
            (Inr Success,
             s\<lparr>tasks := map (\<lambda>t. if owned_match owner p t
                                   then set_fields (real_text s) ti de pr ca du
                                          (coerce_flag (b_completed b)) t
                                   else t) (tasks s)\<rparr>)
      | Inr _ \<Rightarrow> (Inl (HttpError 500 too_few_msg), s))"

text \<open>
  \<^verbatim>\<open>DELETE /api/tasks/:id\<close>. With foreign keys enforced, the rule
  \<^verbatim>\<open>FOREIGN KEY(task_id) REFERENCES tasks(id) ON DELETE CASCADE\<close> deletes, with each
  task row, the subtask rows whose \<^verbatim>\<open>task_id\<close> is its id; with enforcement off the
  subtasks table is not touched.
\<close>

definition delete_task :: "int \<Rightarrow> param \<Rightarrow> db \<Rightarrow> (error + ack) \<times> db" where
  "delete_task owner p s =
     (let gone = map t_id (filter (owned_match owner p) (tasks s))
      in (Inr Success,
          s\<lparr>tasks := filter (\<lambda>t. \<not> owned_match owner p t) (tasks s),
            subtasks := (if foreign_keys s
                         then filter (\<lambda>st. task_id st \<notin> set (map SInt gone)) (subtasks s)
                         else subtasks s)\<rparr>))"

text \<open>The body of the response of \<^verbatim>\<open>POST /api/tasks/:taskId/subtasks\<close>.\<close>

record created_subtask =
  cs_id :: int
  cs_title :: jsval
  cs_completed :: int

text \<open>
  \<^verbatim>\<open>POST /api/tasks/:taskId/subtasks\<close>. The statement has two parameters;
  \<^verbatim>\<open>taskId\<close> takes the first and \<^verbatim>\<open>title\<close> is to fill the second. The caller's
  identity is not used. With foreign keys enforced the insert needs a row of
  \<^verbatim>\<open>tasks\<close> whose id is the new \<^verbatim>\<open>task_id\<close>. The last case cannot occur.
\<close>

definition create_subtask :: "param \<Rightarrow> jsval \<Rightarrow> db \<Rightarrow> (error + created_subtask) \<times> db" where
  "create_subtask p ti s =
     (case bind_args 1 0 [ti] of
        Inl m \<Rightarrow> (Inl (HttpError 500 m), s)
      | Inr [v] \<Rightarrow>
          if v = SNull then (Inl (not_null_error ''subtasks.title''), s)
          else if foreign_keys s \<and> param_val p \<notin> set (map (\<lambda>t. SInt (t_id t)) (tasks s))
          then (Inl fk_error, s)
          else
            let i = next_id (subtasks_seq s) (map s_id (subtasks s));
                row = \<lparr>s_id = i, task_id = param_val p, s_title = text_affinity (real_text s) v,
                       s_completed = 0\<rparr>
            in (Inr \<lparr>cs_id = i, cs_title = ti, cs_completed = 0\<rparr>,
                s\<lparr>subtasks := subtasks s @ [row], subtasks_seq := i\<rparr>)
      | Inr _ \<Rightarrow> (Inl (HttpError 500 too_few_msg), s))"

text \<open>\<^verbatim>\<open>PUT /api/subtasks/:id\<close>\<close>

definition update_subtask :: "param \<Rightarrow> jsval \<Rightarrow> db \<Rightarrow> (error + ack) \<times> db" where
  "update_subtask p c s =
     (Inr Success,
      s\<lparr>subtasks := map (\<lambda>st. if id_matches p (s_id st)
                               then st\<lparr>s_completed := coerce_flag c\<rparr> else st) (subtasks s)\<rparr>)"

section \<open>Queries\<close>

text \<open>
  \<^verbatim>\<open>GET /api/tasks\<close>: the owner's rows \<^verbatim>\<open>ORDER BY created_at DESC\<close>, each with
  the rows of \<^verbatim>\<open>SELECT * FROM subtasks WHERE task_id = ?\<close> for its id. The engine
  leaves the order among rows created in the same second open; the model keeps them in
  rowid order.
\<close>

definition subtasks_of :: "db \<Rightarrow> int \<Rightarrow> subtask_row list" where
  "subtasks_of s i = filter (\<lambda>st. task_id st = SInt i) (subtasks s)"

definition list_tasks :: "int \<Rightarrow> db \<Rightarrow> (task_row \<times> subtask_row list) list" where
  "list_tasks owner s =
     map (\<lambda>t. (t, subtasks_of s (t_id t)))
         (sort_key (\<lambda>t. - created_at t) (filter (\<lambda>t. user_id t = owner) (tasks s)))"

text \<open>
  \<^verbatim>\<open>GET /api/stats\<close>. \<^verbatim>\<open>SUM\<close> over no rows is NULL, \<^verbatim>\<open>COUNT(*)\<close> over no rows
  is 0. \<^verbatim>\<open>date(created_at)\<close> is the day of the instant; the text comparison
  \<^verbatim>\<open>created_at >= date('now', '-7 days')\<close> of \<^verbatim>\<open>YYYY-MM-DD HH:MM:SS\<close> with
  \<^verbatim>\<open>YYYY-MM-DD\<close> holds exactly when the day of \<^verbatim>\<open>created_at\<close> is not before the day
  seven days before today. The engine leaves the order of the groups open; the model
  lists them by ascending date.
\<close>

fun sql_sum :: "int list \<Rightarrow> int option" where
  "sql_sum [] = None"
| "sql_sum xs = Some (sum_list xs)"

definition day_of :: "int \<Rightarrow> int" where
  "day_of t = t div 86400"

record stats =
  total :: int
  completed_count :: "int option"
  high_priority_pending :: "int option"
  weekly :: "(int \<times> int) list"

definition weekly_rows :: "int \<Rightarrow> int \<Rightarrow> db \<Rightarrow> task_row list" where
  "weekly_rows now owner s =
     filter (\<lambda>t. user_id t = owner \<and> day_of now - 7 \<le> day_of (created_at t)) (tasks s)"

definition compute_stats :: "int \<Rightarrow> int \<Rightarrow> db \<Rightarrow> stats" where
  "compute_stats now owner s =
     (let mine = filter (\<lambda>t. user_id t = owner) (tasks s);
          recent = weekly_rows now owner s
      in \<lparr>total = int (length mine),
          completed_count = sql_sum (map (\<lambda>t. if completed t = 1 then 1 else 0) mine),
          high_priority_pending =
            sql_sum (map (\<lambda>t. if priority t = SText ''high'' \<and> completed t = 0 then 1 else 0) mine),
          weekly = map (\<lambda>d. (d, int (length (filter (\<lambda>t. day_of (created_at t) = d) recent))))
                       (sort (remdups (map (\<lambda>t. day_of (created_at t)) recent)))\<rparr>)"

section \<open>Requests that write\<close>

datatype request =
    Register "string \<Rightarrow> string" jsval jsval jsval
  | CreateTask int int task_body
  | UpdateTask int param task_body
  | DeleteTask int param
  | CreateSubtask param jsval
  | UpdateSubtask param jsval

fun handle :: "request \<Rightarrow> db \<Rightarrow> db" where
  "handle (Register h em pw nm) s = snd (register h em pw nm s)"
| "handle (CreateTask now owner b) s = snd (create_task now owner b s)"
| "handle (UpdateTask owner p b) s = snd (update_task owner p b s)"
| "handle (DeleteTask owner p) s = snd (delete_task owner p s)"
| "handle (CreateSubtask p ti) s = snd (create_subtask p ti s)"
| "handle (UpdateSubtask p c) s = snd (update_subtask p c s)"

text \<open>Completion is a boolean represented as 0/1, in both tables.\<close>

definition flags_ok :: "db \<Rightarrow> bool" where
  "flags_ok s = (list_all (\<lambda>t. completed t = 0 \<or> completed t = 1) (tasks s) \<and>
                 list_all (\<lambda>st. s_completed st = 0 \<or> s_completed st = 1) (subtasks s))"

text \<open>
  A value the driver binds to one parameter (absent, null, a number or a string), and
  a body of which that holds for each field that a statement binds.
\<close>

definition bindable :: "jsval \<Rightarrow> bool" where
  "bindable v = (bind v \<noteq> None)"

definition body_bindable :: "task_body \<Rightarrow> bool" where
  "body_bindable b = (bindable (b_title b) \<and> bindable (b_description b) \<and>
     bindable (b_priority b) \<and> bindable (b_category b) \<and> bindable (b_due_date b))"

section \<open>A small database for the examples\<close>

text \<open>
  Two users, one task each, and three subtasks; the timestamps lie on day 10.
\<close>

definition ann :: user_row where
  "ann = \<lparr>u_id = 1, email = SText ''a@x.com'', password = SText ''$2a$10$h1'',
          name = SText ''Ann'', avatar_url = SNull\<rparr>"

definition bob :: user_row where
  "bob = \<lparr>u_id = 2, email = SText ''b@x.com'', password = SText ''$2a$10$h2'',
          name = SText ''b'', avatar_url = SNull\<rparr>"

definition ship :: task_row where
  "ship = \<lparr>t_id = 1, user_id = 1, title = SText ''Ship release'', description = SNull,
           priority = SText ''high'', category = SText ''General'', due_date = SNull,
           completed = 0, created_at = 864000\<rparr>"

definition groceries :: task_row where
  "groceries = \<lparr>t_id = 2, user_id = 2, title = SText ''Groceries'', description = SNull,
           priority = SText ''medium'', category = SText ''Home'', due_date = SNull,
           completed = 1, created_at = 864100\<rparr>"

definition demo_subtasks :: "subtask_row list" where
  "demo_subtasks =
     [\<lparr>s_id = 1, task_id = SInt 1, s_title = SText ''tag'', s_completed = 0\<rparr>,
      \<lparr>s_id = 2, task_id = SInt 2, s_title = SText ''milk'', s_completed = 1\<rparr>,
      \<lparr>s_id = 3, task_id = SInt 1, s_title = SText ''notes'', s_completed = 0\<rparr>]"

text \<open>
  The text form the engine gives a REAL with an integer value (its format
  \<^verbatim>\<open>%!.15g\<close>): below 10^15 in magnitude the decimal digits followed by \<^verbatim>\<open>.0\<close>,
  and from there on fifteen significant digits, rounded half up, without trailing
  zeros and in exponent form, such as \<^verbatim>\<open>1.0e+17\<close>.
\<close>

definition strip_zeros :: "string \<Rightarrow> string" where
  "strip_zeros ds =
     (case rev (dropWhile (\<lambda>c. c = CHR ''0'') (rev ds)) of [] \<Rightarrow> ''0'' | r \<Rightarrow> r)"

definition exp_text :: "nat \<Rightarrow> string" where
  "exp_text n =
     (let e = length (show_nat n) - 1;
          m = (n + 5 * 10 ^ (e - 15)) div 10 ^ (e - 14);
          m' = (if 10 ^ 15 \<le> m then m div 10 else m);
          e' = (if 10 ^ 15 \<le> m then e + 1 else e)
      in case show_nat m' of
           [] \<Rightarrow> []
         | d # ds \<Rightarrow> d # CHR ''.'' # strip_zeros ds @ ''e+'' @ show_nat e')"

definition engine_text :: "int \<Rightarrow> string" where
  "engine_text i =
     (let n = nat (abs i);
          body = (if n < 10 ^ 15 then show_nat n @ ''.0'' else exp_text n)
      in if i < 0 then CHR ''-'' # body else body)"

definition demo_db :: db where
  "demo_db = \<lparr>foreign_keys = True, real_text = engine_text, users = [ann, bob], users_seq = 2,
              tasks = [ship, groceries], tasks_seq = 2,
              subtasks = demo_subtasks, subtasks_seq = 3\<rparr>"

definition done_body :: task_body where
  "done_body = \<lparr>b_title = JStr ''Mine now'', b_description = JUndefined, b_priority = JStr ''low'',
     b_category = JNull, b_due_date = JStr ''2024-01-01'', b_completed = JBool True\<rparr>"

definition blank_body :: task_body where
  "blank_body = \<lparr>b_title = JStr [], b_description = JUndefined, b_priority = JUndefined,
     b_category = JUndefined, b_due_date = JUndefined, b_completed = JUndefined\<rparr>"

definition untitled_body :: task_body where
  "untitled_body = \<lparr>b_title = JUndefined, b_description = JStr ''no title'', b_priority = JStr ''low'',
     b_category = JUndefined, b_due_date = JUndefined, b_completed = JUndefined\<rparr>"

text \<open>A stand-in for the salted hash, for the examples.\<close>

definition salted :: "string \<Rightarrow> string" where
  "salted p = ''$2a$10$'' @ p"

text \<open>
  Two updates of the task with id \<open>i\<close> in a row, by its owner and with the same
  fields, that differ only in \<^verbatim>\<open>completed\<close>: first \<open>von\<close>, then \<open>voff\<close>.
\<close>

definition toggled :: "int \<Rightarrow> int \<Rightarrow> task_body \<Rightarrow> jsval \<Rightarrow> jsval \<Rightarrow> db \<Rightarrow> db" where
  "toggled u i b von voff s =
     snd (update_task u (PInt i) (b\<lparr>b_completed := voff\<rparr>)
            (snd (update_task u (PInt i) (b\<lparr>b_completed := von\<rparr>) s)))"

definition ship_body :: task_body where
  "ship_body = \<lparr>b_title = JStr ''Ship release'', b_description = JNull, b_priority = JStr ''high'',
     b_category = JStr ''General'', b_due_date = JNull, b_completed = JNum 0\<rparr>"

text \<open>
  The same database with two more tasks of Ann's, created on day 11. Seen at
  \<open>now = 1556200\<close> (day 18) they are more than seven times 24 hours old, but their
  day is the first day of the window; \<open>ship\<close>, from day 10, is before it.
\<close>

definition notes_task :: task_row where
  "notes_task = \<lparr>t_id = 3, user_id = 1, title = SText ''Release notes'', description = SNull,
           priority = SText ''low'', category = SText ''General'', due_date = SNull,
           completed = 0, created_at = 950500\<rparr>"

definition party_task :: task_row where
  "party_task = \<lparr>t_id = 4, user_id = 1, title = SText ''Release party'', description = SNull,
           priority = SText ''medium'', category = SText ''General'', due_date = SNull,
           completed = 0, created_at = 950600\<rparr>"

definition week_db :: db where
  "week_db = demo_db\<lparr>tasks := [ship, groceries, notes_task, party_task], tasks_seq := 4\<rparr>"

text \<open>
  Ann with one task on each of the days 11 to 18, each created at 00:01:40 UTC.
\<close>

definition eight_days_db :: db where
  "eight_days_db =
     demo_db\<lparr>tasks := map (\<lambda>d. notes_task\<lparr>t_id := d, created_at := 86400 * d + 100\<rparr>)
                         [11, 12, 13, 14, 15, 16, 17, 18],
             tasks_seq := 18\<rparr>"

text \<open>The requests that build \<open>demo_db\<close>.\<close>

definition demo_requests :: "request list" where
  "demo_requests =
     [Register salted (JStr ''a@x.com'') (JStr ''h1'') (JStr ''Ann''),
      Register salted (JStr ''b@x.com'') (JStr ''h2'') JUndefined,
      CreateTask 864000 1
        \<lparr>b_title = JStr ''Ship release'', b_description = JUndefined, b_priority = JStr ''high'',
         b_category = JUndefined, b_due_date = JUndefined, b_completed = JUndefined\<rparr>,
      CreateTask 864100 2
        \<lparr>b_title = JStr ''Groceries'', b_description = JUndefined, b_priority = JUndefined,
         b_category = JStr ''Home'', b_due_date = JUndefined, b_completed = JUndefined\<rparr>,
      UpdateTask 2 (PInt 2)
        \<lparr>b_title = JStr ''Groceries'', b_description = JNull, b_priority = JStr ''medium'',
         b_category = JStr ''Home'', b_due_date = JNull, b_completed = JNum 1\<rparr>,
      CreateSubtask (PInt 1) (JStr ''tag''),
      CreateSubtask (PInt 2) (JStr ''milk''),
      CreateSubtask (PInt 1) (JStr ''notes''),
      UpdateSubtask (PInt 2) (JBool True)]"

text \<open>The same database after a third user has registered; she has no task yet.\<close>

definition carol :: user_row where
  "carol = \<lparr>u_id = 3, email = SText ''c@x.com'', password = SText ''$2a$10$pw'',
          name = SText ''c'', avatar_url = SNull\<rparr>"

definition carol_db :: db where
  "carol_db = demo_db\<lparr>users := [ann, bob, carol], users_seq := 3\<rparr>"

section \<open>Auxiliary facts\<close>

lemma spread_bindable: "bind v = Some x \<Longrightarrow> spread v = [Anon v]"
  by (cases v) simp_all

lemma bind_args5:
  assumes "bind a = Some a'" and "bind b = Some b'" and "bind c = Some c'"
    and "bind d = Some d'" and "bind e = Some e'"
  shows "bind_args 5 k [a, b, c, d, e] = Inr [a', b', c', d', e']"
  using assms by (simp add: bind_args_def spread_bindable)

lemma bind_args1: "bind v = Some x \<Longrightarrow> bind_args 1 k [v] = Inr [x]"
  by (simp add: bind_args_def spread_bindable)

lemma bind_args_length: "bind_args n k args = Inr vs \<Longrightarrow> length vs = n"
  by (auto simp: bind_args_def split: sum.splits if_splits)

lemma five_values: "length vs = 5 \<Longrightarrow> \<exists>a b c d e. vs = [a, b, c, d, e]"
  by (auto simp: length_Suc_conv eval_nat_numeral)

lemma bind_args_five:
  "bind_args 5 k args = Inr vs \<Longrightarrow> \<exists>a b c d e. vs = [a, b, c, d, e]"
  using bind_args_length five_values by blast

lemma bind_slots_prefix: "bind_slots l sn acc r = Inr vs \<Longrightarrow> \<exists>ys. vs = acc @ ys"
proof (induction r arbitrary: sn acc)
  case Nil
  then show ?case by simp
next
  case (Cons x r)
  show ?case
  proof (cases x)
    case (Anon v)
    then obtain y where y: "bind v = Some y" "bind_slots l sn (acc @ [y]) r = Inr vs"
      using Cons.prems by (auto split: option.splits if_splits)
    then obtain ys where "vs = (acc @ [y]) @ ys" using Cons.IH by blast
    then show ?thesis by simp
  next
    case Named
    then have "bind_slots l True acc r = Inr vs"
      using Cons.prems by (auto split: if_splits)
    then show ?thesis using Cons.IH by blast
  qed
qed

text \<open>The text form of a REAL on three values.\<close>

lemma engine_text_examples:
  "engine_text 5 = ''5.0'' \<and> engine_text (- 12) = ''-12.0'' \<and>
   engine_text 100000000000000000 = ''1.0e+17'' \<and>
   engine_text 9007199254740992 = ''9.00719925474099e+15''"
  by (simp add: engine_text_def exp_text_def strip_zeros_def Let_def digit_char_def)

lemma map_no_match: "\<forall>x \<in> set xs. \<not> P x \<Longrightarrow> map (\<lambda>x. if P x then f x else x) xs = xs"
  by (induction xs) auto

lemma filter_no_match: "\<forall>x \<in> set xs. \<not> P x \<Longrightarrow> filter (\<lambda>x. \<not> P x) xs = xs"
  by (induction xs) auto

lemma three_values: "length vs = 3 \<Longrightarrow> \<exists>a b c. vs = [a, b, c]"
  by (auto simp: length_Suc_conv eval_nat_numeral)

text \<open>What \<open>register\<close> does to the database: nothing, or one new row.\<close>

lemma register_effect:
  obtains (same) "snd (register h em pw nm s) = s"
  | (added) p n e hv n' where "truthy em" and "pw = JStr p"
      and "bind_args 3 0 [em, JStr (h p), n] = Inr [e, hv, n']"
      and "\<not> (text_affinity (real_text s) e \<noteq> SNull \<and>
              text_affinity (real_text s) e \<in> set (map email (users s)))"
      and "snd (register h em pw nm s) =
             s\<lparr>users := users s @
                  [\<lparr>u_id = next_id (users_seq s) (map u_id (users s)),
                    email = text_affinity (real_text s) e,
                    password = text_affinity (real_text s) hv,
                    name = text_affinity (real_text s) n', avatar_url = SNull\<rparr>],
               users_seq := next_id (users_seq s) (map u_id (users s))\<rparr>"
proof (cases "\<not> truthy em \<or> \<not> truthy pw")
  case True
  then have "snd (register h em pw nm s) = s" by (auto simp: register_def)
  then show ?thesis by (rule same)
next
  case ok: False
  show ?thesis
  proof (cases pw)
    case (JStr p)
    show ?thesis
    proof (cases "if truthy nm then Some nm else local_part em")
      case None
      then have "snd (register h em pw nm s) = s"
        using ok JStr by (simp add: register_def)
      then show ?thesis by (rule same)
    next
      case (Some n)
      show ?thesis
      proof (cases "bind_args 3 0 [em, JStr (h p), n]")
        case (Inl m)
        then have "snd (register h em pw nm s) = s"
          using ok JStr Some by (simp add: register_def)
        then show ?thesis by (rule same)
      next
        case (Inr vs)
        then obtain e hv n' where vs: "vs = [e, hv, n']"
          using bind_args_length three_values by blast
        show ?thesis
        proof (cases "text_affinity (real_text s) e \<noteq> SNull \<and>
                      text_affinity (real_text s) e \<in> set (map email (users s))")
          case True
          then have "snd (register h em pw nm s) = s"
            using ok JStr Some Inr vs by (simp add: register_def)
          then show ?thesis by (rule same)
        next
          case False
          have "snd (register h em pw nm s) =
             s\<lparr>users := users s @
                  [\<lparr>u_id = next_id (users_seq s) (map u_id (users s)),
                    email = text_affinity (real_text s) e,
                    password = text_affinity (real_text s) hv,
                    name = text_affinity (real_text s) n', avatar_url = SNull\<rparr>],
               users_seq := next_id (users_seq s) (map u_id (users s))\<rparr>"
            using ok JStr Some Inr vs False by (auto simp: register_def Let_def)
          then show ?thesis
            using ok JStr Inr vs False added by blast
        qed
      qed
    qed
  qed (use ok in \<open>simp_all add: register_def same\<close>)
qed

text \<open>What the handlers of the task store do: they fail and change nothing, or succeed.\<close>

lemma create_task_effect:
  obtains (failed) err where "create_task now u b s = (Inl err, s)"
  | (created) ti de pr ca du where
      "bind_args 5 0 [b_title b, b_description b, js_or (b_priority b) (JStr ''medium''),
                      js_or (b_category b) (JStr ''General''), b_due_date b]
         = Inr [ti, de, pr, ca, du]"
      and "ti \<noteq> SNull" and "\<not> (foreign_keys s \<and> u \<notin> set (map u_id (users s)))"
      and "create_task now u b s =
            (Inr \<lparr>c_id = next_id (tasks_seq s) (map t_id (tasks s)), c_title = b_title b,
                  c_completed = 0, c_subtasks = []\<rparr>,
             s\<lparr>tasks := tasks s @
                  [\<lparr>t_id = next_id (tasks_seq s) (map t_id (tasks s)), user_id = u,
                    title = text_affinity (real_text s) ti,
                    description = text_affinity (real_text s) de,
                    priority = text_affinity (real_text s) pr,
                    category = text_affinity (real_text s) ca,
                    due_date = text_affinity (real_text s) du,
                    completed = 0, created_at = now\<rparr>],
               tasks_seq := next_id (tasks_seq s) (map t_id (tasks s))\<rparr>)"
proof (cases "bind_args 5 0 [b_title b, b_description b, js_or (b_priority b) (JStr ''medium''),
                      js_or (b_category b) (JStr ''General''), b_due_date b]")
  case (Inl m)
  then have "create_task now u b s = (Inl (HttpError 500 m), s)"
    by (simp add: create_task_def)
  then show ?thesis by (rule failed)
next
  case (Inr vs)
  then obtain ti de pr ca du where vs: "vs = [ti, de, pr, ca, du]"
    using bind_args_five by blast
  show ?thesis
  proof (cases "ti = SNull \<or> (foreign_keys s \<and> u \<notin> set (map u_id (users s)))")
    case True
    then have "\<exists>err. create_task now u b s = (Inl err, s)"
      using Inr vs by (auto simp: create_task_def)
    then show ?thesis using failed by blast
  next
    case False
    then have "create_task now u b s =
            (Inr \<lparr>c_id = next_id (tasks_seq s) (map t_id (tasks s)), c_title = b_title b,
                  c_completed = 0, c_subtasks = []\<rparr>,
             s\<lparr>tasks := tasks s @
                  [\<lparr>t_id = next_id (tasks_seq s) (map t_id (tasks s)), user_id = u,
                    title = text_affinity (real_text s) ti,
                    description = text_affinity (real_text s) de,
                    priority = text_affinity (real_text s) pr,
                    category = text_affinity (real_text s) ca,
                    due_date = text_affinity (real_text s) du,
                    completed = 0, created_at = now\<rparr>],
               tasks_seq := next_id (tasks_seq s) (map t_id (tasks s))\<rparr>)"
      using Inr vs by (auto simp: create_task_def Let_def)
    then show ?thesis using Inr vs False created by blast
  qed
qed

lemma update_task_bind_fails:
  "bind_args 5 3 [b_title b, b_description b, b_priority b, b_category b, b_due_date b] = Inl m
   \<Longrightarrow> update_task u p b s = (Inl (HttpError 500 m), s)"
  by (simp add: update_task_def)

lemma update_task_null_title:
  assumes "bind_args 5 3 [b_title b, b_description b, b_priority b, b_category b, b_due_date b]
             = Inr [SNull, de, pr, ca, du]"
    and "\<exists>t \<in> set (tasks s). owned_match u p t"
  shows "update_task u p b s = (Inl (not_null_error ''tasks.title''), s)"
  using assms by (simp add: update_task_def)

lemma update_task_sets:
  assumes "bind_args 5 3 [b_title b, b_description b, b_priority b, b_category b, b_due_date b]
             = Inr [ti, de, pr, ca, du]"
    and "\<not> (ti = SNull \<and> (\<exists>t \<in> set (tasks s). owned_match u p t))"
  shows "update_task u p b s =
      (Inr Success, s\<lparr>tasks := map (\<lambda>t. if owned_match u p t
                                then set_fields (real_text s) ti de pr ca du
                                       (coerce_flag (b_completed b)) t
                                else t) (tasks s)\<rparr>)"
  using assms by (auto simp: update_task_def)

lemma update_task_effect:
  obtains (failed) err where "update_task u p b s = (Inl err, s)"
  | (updated) ti de pr ca du where
      "update_task u p b s =
        (Inr Success, s\<lparr>tasks := map (\<lambda>t. if owned_match u p t
                                then set_fields (real_text s) ti de pr ca du
                                       (coerce_flag (b_completed b)) t
                                else t) (tasks s)\<rparr>)"
proof (cases "bind_args 5 3 [b_title b, b_description b, b_priority b, b_category b, b_due_date b]")
  case (Inl m)
  then show ?thesis using update_task_bind_fails failed by blast
next
  case (Inr vs)
  then obtain ti de pr ca du where vs: "vs = [ti, de, pr, ca, du]"
    using bind_args_five by blast
  show ?thesis
  proof (cases "ti = SNull \<and> (\<exists>t \<in> set (tasks s). owned_match u p t)")
    case True
    then show ?thesis using update_task_null_title[of b de pr ca du s u p] Inr vs failed by blast
  next
    case False
    then show ?thesis using update_task_sets[of b ti de pr ca du s u p] Inr vs updated by blast
  qed
qed

lemma create_subtask_effect:
  obtains (failed) err where "create_subtask p ti s = (Inl err, s)"
  | (created) v where "v \<noteq> SNull"
      and "create_subtask p ti s =
            (Inr \<lparr>cs_id = next_id (subtasks_seq s) (map s_id (subtasks s)), cs_title = ti,
                  cs_completed = 0\<rparr>,
             s\<lparr>subtasks := subtasks s @
                  [\<lparr>s_id = next_id (subtasks_seq s) (map s_id (subtasks s)),
                    task_id = param_val p, s_title = text_affinity (real_text s) v,
                    s_completed = 0\<rparr>],
               subtasks_seq := next_id (subtasks_seq s) (map s_id (subtasks s))\<rparr>)"
proof (cases "bind_args 1 0 [ti]")
  case (Inl m)
  then have "create_subtask p ti s = (Inl (HttpError 500 m), s)"
    by (simp add: create_subtask_def)
  then show ?thesis by (rule failed)
next
  case (Inr vs)
  then have "length vs = 1" by (rule bind_args_length)
  then obtain v where vs: "vs = [v]"
    by (cases vs) simp_all
  show ?thesis
  proof (cases "v = SNull \<or>
      (foreign_keys s \<and> param_val p \<notin> set (map (\<lambda>t. SInt (t_id t)) (tasks s)))")
    case True
    then have "\<exists>err. create_subtask p ti s = (Inl err, s)"
      using Inr vs by (auto simp: create_subtask_def)
    then show ?thesis using failed by blast
  next
    case False
    then have "create_subtask p ti s =
            (Inr \<lparr>cs_id = next_id (subtasks_seq s) (map s_id (subtasks s)), cs_title = ti,
                  cs_completed = 0\<rparr>,
             s\<lparr>subtasks := subtasks s @
                  [\<lparr>s_id = next_id (subtasks_seq s) (map s_id (subtasks s)),
                    task_id = param_val p, s_title = text_affinity (real_text s) v,
                    s_completed = 0\<rparr>],
               subtasks_seq := next_id (subtasks_seq s) (map s_id (subtasks s))\<rparr>)"
      using Inr vs by (auto simp: create_subtask_def Let_def)
    then show ?thesis using False created by blast
  qed
qed

section \<open>Deleting a task\<close>

text \<open>
  No handler changes the connection's setting, so foreign keys are enforced in every
  state that requests produce from a freshly opened database.
\<close>

lemma setting_register: "foreign_keys (snd (register h em pw nm s)) = foreign_keys s"
  by (cases rule: register_effect[of h em pw nm s]) simp_all

lemma setting_create_task: "foreign_keys (snd (create_task now u b s)) = foreign_keys s"
  by (cases rule: create_task_effect[of now u b s]) simp_all

lemma setting_update_task: "foreign_keys (snd (update_task u p b s)) = foreign_keys s"
  by (cases rule: update_task_effect[of u p b s]) simp_all

lemma setting_create_subtask: "foreign_keys (snd (create_subtask p ti s)) = foreign_keys s"
  by (cases rule: create_subtask_effect[of p ti s]) simp_all

lemma handle_keeps_setting: "foreign_keys (handle r s) = foreign_keys s"
  by (cases r) (simp_all add: setting_register setting_create_task setting_update_task
      setting_create_subtask delete_task_def update_subtask_def Let_def)

lemma fold_handle_setting: "foreign_keys (fold handle rs s) = foreign_keys s"
  by (induction rs arbitrary: s) (simp_all add: handle_keeps_setting)

lemma reachable_enforced: "foreign_keys (fold handle rs (open_db rt))"
  by (simp add: fold_handle_setting) (simp add: open_db_def)

lemma demo_db_reachable: "fold handle demo_requests (open_db engine_text) = demo_db"
  by (simp add: demo_requests_def open_db_def demo_db_def register_def create_task_def
      update_task_def create_subtask_def update_subtask_def set_fields_def owned_match_def
      bind_args_def coerce_flag_def js_or_def next_id_def salted_def ann_def bob_def ship_def
      groceries_def demo_subtasks_def)

text \<open>
  Claim C1. With the declared foreign keys enforced (the connection's setting, see
  \<open>open_db\<close>), \<open>delete_task\<close> for a task the owner holds answers success, removes the
  task rows with that id and owner, and removes exactly the subtask rows whose
  \<open>task_id\<close> is that id: the subtasks of the task are none afterwards, the subtasks of
  every other task are what they were, and the users table is untouched.
\<close>

theorem delete_task_cascade:
  assumes "foreign_keys s" and "t \<in> set (tasks s)" and "t_id t = i" and "user_id t = u"
  shows "fst (delete_task u (PInt i) s) = Inr Success \<and>
         tasks (snd (delete_task u (PInt i) s)) =
           filter (\<lambda>t'. \<not> (t_id t' = i \<and> user_id t' = u)) (tasks s) \<and>
         subtasks (snd (delete_task u (PInt i) s)) =
           filter (\<lambda>st. task_id st \<noteq> SInt i) (subtasks s) \<and>
         subtasks_of (snd (delete_task u (PInt i) s)) i = [] \<and>
         (\<forall>j. j \<noteq> i \<longrightarrow> subtasks_of (snd (delete_task u (PInt i) s)) j = subtasks_of s j) \<and>
         users (snd (delete_task u (PInt i) s)) = users s"
proof -
  have gone: "\<And>v. v \<in> set (map SInt (map t_id (filter (owned_match u (PInt i)) (tasks s))))
                \<longleftrightarrow> v = SInt i"
    using assms by (auto simp: owned_match_def)
  have "filter (\<lambda>st. task_id st \<notin> set (map SInt (map t_id (filter (owned_match u (PInt i)) (tasks s)))))
               (subtasks s)
        = filter (\<lambda>st. task_id st \<noteq> SInt i) (subtasks s)"
    by (rule filter_cong) (simp_all only: gone)
  then have sub: "subtasks (snd (delete_task u (PInt i) s)) =
           filter (\<lambda>st. task_id st \<noteq> SInt i) (subtasks s)"
    using assms(1) by (simp add: delete_task_def Let_def del: set_map set_filter map_map)
  have oth: "\<And>j. j \<noteq> i \<Longrightarrow>
      filter (\<lambda>st. task_id st = SInt j) (filter (\<lambda>st. task_id st \<noteq> SInt i) (subtasks s))
      = filter (\<lambda>st. task_id st = SInt j) (subtasks s)"
    by (auto intro: filter_cong)
  have tk: "tasks (snd (delete_task u (PInt i) s)) =
           filter (\<lambda>t'. \<not> (t_id t' = i \<and> user_id t' = u)) (tasks s)"
    by (simp add: delete_task_def Let_def owned_match_def)
  have us: "users (snd (delete_task u (PInt i) s)) = users s"
    by (simp add: delete_task_def Let_def)
  have ok: "fst (delete_task u (PInt i) s) = Inr Success"
    by (simp add: delete_task_def Let_def)
  show ?thesis using sub oth tk us ok
    by (simp add: subtasks_of_def)
qed

theorem delete_task_cascade_witness:
  "foreign_keys demo_db \<and> ship \<in> set (tasks demo_db) \<and> t_id ship = 1 \<and> user_id ship = 1 \<and>
   fst (delete_task 1 (PInt 1) demo_db) = Inr Success \<and>
   tasks (snd (delete_task 1 (PInt 1) demo_db)) = [groceries] \<and>
   subtasks (snd (delete_task 1 (PInt 1) demo_db)) =
     [\<lparr>s_id = 2, task_id = SInt 2, s_title = SText ''milk'', s_completed = 1\<rparr>] \<and>
   subtasks_of (snd (delete_task 1 (PInt 1) demo_db)) 1 = [] \<and>
   subtasks_of (snd (delete_task 1 (PInt 1) demo_db)) 2 = subtasks_of demo_db 2"
proof -
  have h: "foreign_keys demo_db" "ship \<in> set (tasks demo_db)" "t_id ship = 1" "user_id ship = 1"
    by (simp_all add: demo_db_def ship_def)
  show ?thesis using h delete_task_cascade[OF h]
    by (simp add: demo_db_def ship_def groceries_def demo_subtasks_def)
qed

text \<open>
  With enforcement switched off the same call leaves every subtask row in place: the
  cascade is the engine's, not the handler's.
\<close>

lemma delete_task_without_enforcement:
  "\<not> foreign_keys s \<Longrightarrow> subtasks (snd (delete_task u p s)) = subtasks s"
  by (simp add: delete_task_def Let_def)

section \<open>Another user's task\<close>

lemma delete_task_foreign:
  assumes "\<forall>t \<in> set (tasks s). \<not> owned_match u p t"
  shows "delete_task u p s = (Inr Success, s)"
proof -
  have "filter (owned_match u p) (tasks s) = []"
    using assms by (simp add: filter_empty_conv)
  moreover have "filter (\<lambda>t. \<not> owned_match u p t) (tasks s) = tasks s"
    using assms by (rule filter_no_match)
  ultimately show ?thesis by (simp add: delete_task_def)
qed

lemma update_task_foreign:
  assumes "\<forall>t \<in> set (tasks s). \<not> owned_match u p t" and "body_bindable b"
  shows "update_task u p b s = (Inr Success, s)"
proof -
  obtain ti de pr ca du where bs: "bind (b_title b) = Some ti" "bind (b_description b) = Some de"
     "bind (b_priority b) = Some pr" "bind (b_category b) = Some ca" "bind (b_due_date b) = Some du"
    using assms(2) by (auto simp: body_bindable_def bindable_def)
  have m: "\<And>f. map (\<lambda>t. if owned_match u p t then f t else t) (tasks s) = tasks s"
    using assms(1) by (rule map_no_match)
  have n: "\<not> (\<exists>t \<in> set (tasks s). owned_match u p t)"
    using assms(1) by simp
  show ?thesis unfolding update_task_def bind_args5[OF bs] using n by (simp add: m)
qed

text \<open>
  Claim C3. When no task row has both the requested id and the caller as owner,
  \<open>delete_task\<close> returns success and the database it was given, whole; so does
  \<open>update_task\<close> for every body whose fields the driver can bind (absent, null,
  numbers and strings, which is every body of the documented field types).
\<close>

theorem foreign_task_untouched:
  assumes "\<forall>t \<in> set (tasks s). \<not> (id_matches p (t_id t) \<and> user_id t = u)"
  shows "delete_task u p s = (Inr Success, s) \<and>
         (body_bindable b \<longrightarrow> update_task u p b s = (Inr Success, s))"
  using assms delete_task_foreign[of s u p] update_task_foreign[of s u p b]
  by (simp add: owned_match_def)

theorem foreign_task_untouched_witness:
  "\<not> (\<exists>t \<in> set (tasks demo_db). id_matches (PInt 2) (t_id t) \<and> user_id t = 1) \<and>
   body_bindable done_body \<and>
   delete_task 1 (PInt 2) demo_db = (Inr Success, demo_db) \<and>
   update_task 1 (PInt 2) done_body demo_db = (Inr Success, demo_db)"
proof -
  have h: "\<forall>t \<in> set (tasks demo_db). \<not> (id_matches (PInt 2) (t_id t) \<and> user_id t = 1)"
    by (simp add: demo_db_def ship_def groceries_def)
  have b: "body_bindable done_body"
    by (simp add: body_bindable_def bindable_def done_body_def)
  have n: "\<not> (\<exists>t \<in> set (tasks demo_db). id_matches (PInt 2) (t_id t) \<and> user_id t = 1)"
    using h by blast
  show ?thesis using n b foreign_task_untouched[OF h, of done_body] by simp
qed

section \<open>Fresh row ids\<close>

lemma fold_max_ge: "seq \<le> fold max ids (seq::int) \<and> (\<forall>j \<in> set ids. j \<le> fold max ids seq)"
proof (induction ids arbitrary: seq)
  case Nil
  then show ?case by simp
next
  case (Cons a ids)
  have "max a seq \<le> fold max ids (max a seq)" using Cons.IH by blast
  then show ?case using Cons.IH[of "max a seq"] by auto
qed

lemma next_id_fresh: "\<forall>j \<in> set ids. j < next_id seq ids"
  using fold_max_ge[of seq ids] by (auto simp: next_id_def)

lemma bindable_js_or: "bindable v \<Longrightarrow> bindable (js_or v (JStr d))"
  by (simp add: js_or_def bindable_def)

section \<open>Creating a task\<close>

text \<open>
  Claim C2 as stated fails: the handler of \<^verbatim>\<open>POST /api/tasks\<close> validates nothing.
  With the empty string as title the task is stored and returned, and with the title
  absent the insert violates \<^verbatim>\<open>title TEXT NOT NULL\<close>, which the framework answers
  with status 500, not 400.
\<close>

theorem create_task_empty_title_counterexample:
  "fst (create_task 864200 1 blank_body demo_db) =
     Inr \<lparr>c_id = 3, c_title = JStr [], c_completed = 0, c_subtasks = []\<rparr> \<and>
   tasks (snd (create_task 864200 1 blank_body demo_db)) =
     [ship, groceries,
      \<lparr>t_id = 3, user_id = 1, title = SText [], description = SNull,
       priority = SText ''medium'', category = SText ''General'', due_date = SNull,
       completed = 0, created_at = 864200\<rparr>] \<and>
   create_task 864200 1 untitled_body demo_db =
     (Inl (HttpError 500 ''NOT NULL constraint failed: tasks.title''), demo_db)"
  by (simp add: create_task_def bind_args_def blank_body_def untitled_body_def demo_db_def js_or_def
      next_id_def ship_def groceries_def ann_def bob_def not_null_error_def)

text \<open>
  Claim C2, amended. For a body whose fields the driver can bind: an absent or null
  title is refused by the \<^verbatim>\<open>NOT NULL\<close> constraint (status 500) and the database
  stays as it was; every other title, the empty string included, is accepted when the
  owner's user row exists (or foreign keys are not enforced). Then the response is
  \<^verbatim>\<open>{id, title, completed: 0, subtasks: []}\<close> with the id the table assigns, larger
  than every id in the table, and the table gains that one row at its end, owned by
  the caller, with the title as text, \<open>completed = 0\<close> and \<open>created_at = now\<close>;
  the users and subtasks tables are untouched.
\<close>

theorem create_task_result:
  assumes "body_bindable b"
  shows "(bind (b_title b) = Some SNull \<longrightarrow>
            create_task now u b s = (Inl (not_null_error ''tasks.title''), s)) \<and>
         (bind (b_title b) \<noteq> Some SNull \<and> (foreign_keys s \<longrightarrow> u \<in> set (map u_id (users s))) \<longrightarrow>
            fst (create_task now u b s) =
              Inr \<lparr>c_id = next_id (tasks_seq s) (map t_id (tasks s)), c_title = b_title b,
                   c_completed = 0, c_subtasks = []\<rparr> \<and>
            butlast (tasks (snd (create_task now u b s))) = tasks s \<and>
            tasks (snd (create_task now u b s)) \<noteq> [] \<and>
            t_id (last (tasks (snd (create_task now u b s)))) = next_id (tasks_seq s) (map t_id (tasks s)) \<and>
            user_id (last (tasks (snd (create_task now u b s)))) = u \<and>
            Some (title (last (tasks (snd (create_task now u b s))))) =
              map_option (text_affinity (real_text s)) (bind (b_title b)) \<and>
            completed (last (tasks (snd (create_task now u b s)))) = 0 \<and>
            created_at (last (tasks (snd (create_task now u b s)))) = now \<and>
            (\<forall>t \<in> set (tasks s). t_id t < next_id (tasks_seq s) (map t_id (tasks s))) \<and>
            users (snd (create_task now u b s)) = users s \<and>
            subtasks (snd (create_task now u b s)) = subtasks s)"
proof -
  obtain ti de pr ca du where bs: "bind (b_title b) = Some ti" "bind (b_description b) = Some de"
     "bind (js_or (b_priority b) (JStr ''medium'')) = Some pr"
     "bind (js_or (b_category b) (JStr ''General'')) = Some ca" "bind (b_due_date b) = Some du"
    using assms bindable_js_or[of "b_priority b" "''medium''"]
      bindable_js_or[of "b_category b" "''General''"]
    by (auto simp: body_bindable_def bindable_def)
  have fresh: "\<forall>t \<in> set (tasks s). t_id t < next_id (tasks_seq s) (map t_id (tasks s))"
    using next_id_fresh[of "map t_id (tasks s)" "tasks_seq s"] by simp
  show ?thesis unfolding create_task_def bind_args5[OF bs] using fresh bs(1)
    by (simp add: Let_def)
qed

theorem create_task_result_witness:
  "body_bindable blank_body \<and> body_bindable untitled_body \<and>
   bind (b_title untitled_body) = Some SNull \<and>
   bind (b_title blank_body) \<noteq> Some SNull \<and>
   1 \<in> set (map u_id (users demo_db)) \<and>
   create_task 864200 1 untitled_body demo_db = (Inl (not_null_error ''tasks.title''), demo_db) \<and>
   fst (create_task 864200 1 blank_body demo_db) =
     Inr \<lparr>c_id = 3, c_title = JStr [], c_completed = 0, c_subtasks = []\<rparr> \<and>
   completed (last (tasks (snd (create_task 864200 1 blank_body demo_db)))) = 0 \<and>
   created_at (last (tasks (snd (create_task 864200 1 blank_body demo_db)))) = 864200"
proof -
  have b: "body_bindable blank_body" "body_bindable untitled_body"
    by (simp_all add: body_bindable_def bindable_def blank_body_def untitled_body_def)
  have n: "next_id (tasks_seq demo_db) (map t_id (tasks demo_db)) = 3"
    by (simp add: next_id_def demo_db_def ship_def groceries_def)
  have t: "bind (b_title untitled_body) = Some SNull" "bind (b_title blank_body) \<noteq> Some SNull"
    by (simp_all add: blank_body_def untitled_body_def)
  have u: "1 \<in> set (map u_id (users demo_db))"
    by (simp add: demo_db_def ann_def)
  show ?thesis
    using b t u create_task_result[OF b(1), of 864200 1 demo_db]
      create_task_result[OF b(2), of 864200 1 demo_db]
    by (simp add: n blank_body_def)
qed

section \<open>Creating a subtask\<close>

text \<open>
  Claim C10 as stated fails: the connection enforces the declared foreign key, so the
  insert of a subtask for a task id that no row of \<^verbatim>\<open>tasks\<close> carries is refused,
  answered with status 500, and nothing is stored.
\<close>

theorem create_subtask_orphan_counterexample:
  "create_subtask (PInt 99) (JStr ''orphan'') demo_db =
     (Inl (HttpError 500 ''FOREIGN KEY constraint failed''), demo_db)"
  by (simp add: create_subtask_def bind_args_def demo_db_def ship_def groceries_def fk_error_def)

text \<open>
  Claim C10, amended. For a title that binds to a value other than NULL: when a task
  row with the requested id exists, whoever owns it, \<open>create_subtask\<close> succeeds,
  appends one subtask row with that \<open>task_id\<close>, \<open>completed = 0\<close> and an id larger
  than every subtask id, and reports it; when no such task row exists and foreign keys
  are enforced, the insert is refused and the database stays as it was. Only on a
  connection with enforcement switched off is the orphan row stored.
\<close>

theorem create_subtask_result:
  assumes "bind ti = Some v" and "v \<noteq> SNull"
  shows "(\<not> foreign_keys s \<or> (\<exists>t \<in> set (tasks s). SInt (t_id t) = param_val p) \<longrightarrow>
            create_subtask p ti s =
              (Inr \<lparr>cs_id = next_id (subtasks_seq s) (map s_id (subtasks s)), cs_title = ti,
                    cs_completed = 0\<rparr>,
               s\<lparr>subtasks := subtasks s @
                    [\<lparr>s_id = next_id (subtasks_seq s) (map s_id (subtasks s)), task_id = param_val p,
                      s_title = text_affinity (real_text s) v, s_completed = 0\<rparr>],
                  subtasks_seq := next_id (subtasks_seq s) (map s_id (subtasks s))\<rparr>) \<and>
            (\<forall>st \<in> set (subtasks s). s_id st < next_id (subtasks_seq s) (map s_id (subtasks s)))) \<and>
         (foreign_keys s \<and> \<not> (\<exists>t \<in> set (tasks s). SInt (t_id t) = param_val p) \<longrightarrow>
            create_subtask p ti s = (Inl fk_error, s))"
proof -
  have fresh: "\<forall>st \<in> set (subtasks s). s_id st < next_id (subtasks_seq s) (map s_id (subtasks s))"
    using next_id_fresh[of "map s_id (subtasks s)" "subtasks_seq s"] by simp
  have mem: "param_val p \<in> set (map (\<lambda>t. SInt (t_id t)) (tasks s)) \<longleftrightarrow>
             (\<exists>t \<in> set (tasks s). SInt (t_id t) = param_val p)"
    by (auto simp: image_iff) (metis)
  show ?thesis unfolding create_subtask_def bind_args1[OF assms(1)] mem using assms fresh
    by (auto simp: Let_def)
qed

theorem create_subtask_result_witness:
  "bind (JStr ''orphan'') = Some (SText ''orphan'') \<and> SText ''orphan'' \<noteq> SNull \<and>
   (\<exists>t \<in> set (tasks demo_db). SInt (t_id t) = param_val (PInt 2)) \<and>
   foreign_keys demo_db \<and> \<not> (\<exists>t \<in> set (tasks demo_db). SInt (t_id t) = param_val (PInt 99)) \<and>
   \<not> foreign_keys (demo_db\<lparr>foreign_keys := False\<rparr>) \<and>
   fst (create_subtask (PInt 2) (JStr ''orphan'') demo_db) =
     Inr \<lparr>cs_id = 4, cs_title = JStr ''orphan'', cs_completed = 0\<rparr> \<and>
   create_subtask (PInt 99) (JStr ''orphan'') demo_db = (Inl fk_error, demo_db) \<and>
   subtasks (snd (create_subtask (PInt 99) (JStr ''orphan'') (demo_db\<lparr>foreign_keys := False\<rparr>))) =
     demo_subtasks @
     [\<lparr>s_id = 4, task_id = SInt 99, s_title = SText ''orphan'', s_completed = 0\<rparr>]"
proof -
  have b: "bind (JStr ''orphan'') = Some (SText ''orphan'')" "SText ''orphan'' \<noteq> SNull"
    by simp_all
  have n: "next_id (subtasks_seq demo_db) (map s_id (subtasks demo_db)) = 4"
    by (simp add: next_id_def demo_db_def demo_subtasks_def)
  have e: "\<exists>t \<in> set (tasks demo_db). SInt (t_id t) = param_val (PInt 2)"
       "\<not> (\<exists>t \<in> set (tasks demo_db). SInt (t_id t) = param_val (PInt 99))"
       "foreign_keys demo_db"
    by (simp_all add: demo_db_def ship_def groceries_def)
  show ?thesis
    using b e create_subtask_result[OF b, of demo_db "PInt 2"]
      create_subtask_result[OF b, of demo_db "PInt 99"]
      create_subtask_result[OF b, of "demo_db\<lparr>foreign_keys := False\<rparr>" "PInt 99"]
    by (simp add: n) (simp add: demo_db_def next_id_def demo_subtasks_def)
qed

section \<open>Registration\<close>

lemma register_missing:
  "\<not> truthy em \<or> \<not> truthy pw \<Longrightarrow>
   register h em pw nm s = (Inl (HttpError 400 ''Email and password required''), s)"
  by (auto simp: register_def)

lemma register_conflict:
  assumes "e \<noteq> []" and "p \<noteq> []" and "\<not> truthy nm \<or> bindable nm"
    and "SText e \<in> set (map email (users s))"
  shows "register h (JStr e) (JStr p) nm s = (Inl (HttpError 400 ''Email already exists''), s)"
proof (cases "truthy nm")
  case True
  then obtain n' where "bind nm = Some n'" using assms(3) by (auto simp: bindable_def)
  then show ?thesis using assms True
    by (simp add: register_def bind_args_def spread_bindable)
next
  case False
  then show ?thesis using assms by (simp add: register_def bind_args_def)
qed

text \<open>
  Unless the email is an array, the first value the statement receives is the email
  itself, or the hash when the email is an object; it is not NULL.
\<close>

lemma register_first_value:
  assumes "bind_args 3 0 [em, JStr hp, n] = Inr [e, hv, n']" and "\<not> is_array em"
    and "truthy em"
  shows "text_affinity rt e \<noteq> SNull"
proof -
  obtain vs where vs: "bind_slots 3 False [] (spread em @ Anon (JStr hp) # spread n) = Inr vs"
      "vs = [e, hv, n']"
    using assms(1) by (auto simp: bind_args_def split: sum.splits if_splits)
  show ?thesis
  proof (cases em)
    case (JStr x)
    then have "bind_slots 3 False [SText x, SText hp] (spread n) = Inr vs"
      using vs(1) by simp
    then obtain ys where "vs = [SText x, SText hp] @ ys"
      using bind_slots_prefix by blast
    then show ?thesis using vs(2) by simp
  next
    case (JNum k)
    then have "bind_slots 3 False [SReal k, SText hp] (spread n) = Inr vs"
      using vs(1) by simp
    then obtain ys where "vs = [SReal k, SText hp] @ ys"
      using bind_slots_prefix by blast
    then show ?thesis using vs(2) by simp
  next
    case JObject
    then have "bind_slots 3 True [SText hp] (spread n) = Inr vs"
      using vs(1) by simp
    then obtain ys where "vs = [SText hp] @ ys"
      using bind_slots_prefix by blast
    then show ?thesis using vs(2) by simp
  next
    case (JBool b)
    then show ?thesis using vs(1) by simp
  next
    case (JArr xs)
    then show ?thesis using assms(2) by simp
  next
    case JUndefined
    then show ?thesis using assms(3) by simp
  next
    case JNull
    then show ?thesis using assms(3) by simp
  qed
qed

lemma register_keeps_emails_distinct:
  assumes "distinct (map email (users s))" and "\<not> is_array em"
  shows "distinct (map email (users (snd (register h em pw nm s))))"
proof (cases rule: register_effect[of h em pw nm s])
  case same
  then show ?thesis using assms(1) by simp
next
  case (added p n e hv n')
  have "text_affinity (real_text s) e \<noteq> SNull"
    using register_first_value[OF added(3) assms(2) added(1)] .
  then show ?thesis using added(4,5) assms(1) by simp
qed

lemma register_keeps_emails_apart:
  assumes "distinct (filter (\<lambda>x. x \<noteq> SNull) (map email (users s)))"
  shows "distinct (filter (\<lambda>x. x \<noteq> SNull) (map email (users (snd (register h em pw nm s)))))"
proof (cases rule: register_effect[of h em pw nm s])
  case same
  then show ?thesis using assms by simp
next
  case (added p n e hv n')
  then show ?thesis using assms by auto
qed

text \<open>
  Claim C7. \<open>register\<close> with an email or a password that is missing (absent, null,
  empty, or otherwise falsy) answers 400 ``Email and password required'' and returns the
  database unchanged. With a non-empty email for which a user row already exists, a
  non-empty password and a name that is absent or can be bound, it answers 400 ``Email
  already exists'' and returns the database unchanged. No request creates a second row
  with an email that a row already has: for every request whose email is not an
  array, if no two user rows shared an email before, none do afterwards; and for
  every request at all, if no two user rows shared an email other than NULL before,
  none do afterwards (an array can put NULL into the column, which \<^verbatim>\<open>UNIQUE\<close>
  lets pass).
\<close>

theorem register_rejects:
  "(\<not> truthy em \<or> \<not> truthy pw \<longrightarrow>
      register h em pw nm s = (Inl (HttpError 400 ''Email and password required''), s)) \<and>
   (e \<noteq> [] \<and> p \<noteq> [] \<and> (\<not> truthy nm \<or> bindable nm) \<and> SText e \<in> set (map email (users s)) \<longrightarrow>
      register h (JStr e) (JStr p) nm s = (Inl (HttpError 400 ''Email already exists''), s)) \<and>
   (\<not> is_array em \<and> distinct (map email (users s)) \<longrightarrow>
      distinct (map email (users (snd (register h em pw nm s))))) \<and>
   (distinct (filter (\<lambda>x. x \<noteq> SNull) (map email (users s))) \<longrightarrow>
      distinct (filter (\<lambda>x. x \<noteq> SNull) (map email (users (snd (register h em pw nm s))))))"
  using register_missing[of em pw h nm s] register_conflict[of e p nm s h]
    register_keeps_emails_distinct[of s em h pw nm]
    register_keeps_emails_apart[of s h em pw nm]
  by blast

theorem register_rejects_witness:
  "\<not> truthy (JStr []) \<and> ''a@x.com'' \<noteq> [] \<and> ''pw'' \<noteq> [] \<and> \<not> truthy JUndefined \<and>
   SText ''a@x.com'' \<in> set (map email (users demo_db)) \<and>
   \<not> is_array (JStr ''c@x.com'') \<and>
   distinct (map email (users demo_db)) \<and>
   distinct (filter (\<lambda>x. x \<noteq> SNull) (map email (users demo_db))) \<and>
   register salted (JStr []) (JStr ''pw'') JUndefined demo_db =
     (Inl (HttpError 400 ''Email and password required''), demo_db) \<and>
   register salted (JStr ''a@x.com'') (JStr ''pw'') JUndefined demo_db =
     (Inl (HttpError 400 ''Email already exists''), demo_db) \<and>
   distinct (map email (users (snd (register salted (JStr ''c@x.com'') (JStr ''pw'') JUndefined demo_db)))) \<and>
   distinct (filter (\<lambda>x. x \<noteq> SNull)
     (map email (users (snd (register salted (JArr [JNull]) (JStr ''pw'') (JStr ''n'') demo_db)))))"
proof -
  have h: "\<not> truthy (JStr [])" "''a@x.com'' \<noteq> []" "''pw'' \<noteq> []" "\<not> truthy JUndefined"
    "SText ''a@x.com'' \<in> set (map email (users demo_db))"
    "\<not> is_array (JStr ''c@x.com'')"
    "distinct (map email (users demo_db))"
    "distinct (filter (\<lambda>x. x \<noteq> SNull) (map email (users demo_db)))"
    by (simp_all add: demo_db_def ann_def bob_def)
  show ?thesis
    using h register_rejects[of "JStr []" "JStr ''pw''" salted JUndefined demo_db "''a@x.com''" "''pw''"]
      register_rejects[of "JStr ''a@x.com''" "JStr ''pw''" salted JUndefined demo_db "''a@x.com''" "''pw''"]
      register_rejects[of "JStr ''c@x.com''" "JStr ''pw''" salted JUndefined demo_db "''a@x.com''" "''pw''"]
      register_rejects[of "JArr [JNull]" "JStr ''pw''" salted "JStr ''n''" demo_db "''a@x.com''" "''pw''"]
    by simp
qed

section \<open>The completion flag\<close>

lemma coerce_flag_01: "coerce_flag v = 0 \<or> coerce_flag v = 1"
  by (simp add: coerce_flag_def)

lemma flags_register: "flags_ok s \<Longrightarrow> flags_ok (snd (register h em pw nm s))"
  by (cases rule: register_effect[of h em pw nm s]) (simp_all add: flags_ok_def)

lemma flags_create_task: "flags_ok s \<Longrightarrow> flags_ok (snd (create_task now u b s))"
  by (cases rule: create_task_effect[of now u b s]) (simp_all add: flags_ok_def)

lemma flags_update_task: "flags_ok s \<Longrightarrow> flags_ok (snd (update_task u p b s))"
  using coerce_flag_01[of "b_completed b"]
  by (cases rule: update_task_effect[of u p b s])
     (auto simp: flags_ok_def list_all_iff set_fields_def)

lemma flags_delete_task: "flags_ok s \<Longrightarrow> flags_ok (snd (delete_task u p s))"
  by (auto simp: delete_task_def flags_ok_def list_all_iff Let_def)

lemma flags_create_subtask: "flags_ok s \<Longrightarrow> flags_ok (snd (create_subtask p ti s))"
  by (cases rule: create_subtask_effect[of p ti s]) (simp_all add: flags_ok_def)

lemma flags_update_subtask: "flags_ok s \<Longrightarrow> flags_ok (snd (update_subtask p c s))"
  using coerce_flag_01[of c]
  by (auto simp: update_subtask_def flags_ok_def list_all_iff)

lemma flags_handle: "flags_ok s \<Longrightarrow> flags_ok (handle r s)"
  by (cases r) (simp_all add: flags_register flags_create_task flags_update_task
        flags_delete_task flags_create_subtask flags_update_subtask)

lemma flags_fold_handle: "flags_ok s \<Longrightarrow> flags_ok (fold handle rs s)"
  by (induction rs arbitrary: s) (simp_all add: flags_handle)

text \<open>
  Claim C8. Every completion flag in the freshly opened database is 0 or 1 (there are
  no rows); \<^verbatim>\<open>completed ? 1 : 0\<close> is 0 or 1 for every request value; every writing
  request (register, create, update and delete of tasks, create and update of
  subtasks), whether it succeeds or fails, leaves every completion flag of both tables
  0 or 1 if that held before; so the flags are 0 or 1 after any sequence of requests
  on a freshly opened database.
\<close>

theorem completion_flag_invariant:
  "flags_ok (open_db rt) \<and> (coerce_flag v = 0 \<or> coerce_flag v = 1) \<and>
   (flags_ok s \<longrightarrow> flags_ok (handle r s)) \<and>
   flags_ok (fold handle rs (open_db rt))"
proof -
  have "flags_ok (open_db rt)" by (simp add: flags_ok_def open_db_def)
  then show ?thesis
    using coerce_flag_01[of v] flags_handle[of s r] flags_fold_handle[of "open_db rt" rs] by blast
qed

theorem completion_flag_invariant_witness:
  "flags_ok demo_db \<and>
   flags_ok (handle (UpdateTask 1 (PInt 1) (done_body\<lparr>b_completed := JStr ''yes''\<rparr>)) demo_db) \<and>
   completed (hd (tasks (handle (UpdateTask 1 (PInt 1) (done_body\<lparr>b_completed := JStr ''yes''\<rparr>)) demo_db))) = 1 \<and>
   flags_ok (handle (UpdateSubtask (PInt 2) (JNum 7)) demo_db)"
proof -
  have h: "flags_ok demo_db"
    by (simp add: flags_ok_def demo_db_def ship_def groceries_def demo_subtasks_def)
  have c: "completed (hd (tasks (handle (UpdateTask 1 (PInt 1) (done_body\<lparr>b_completed := JStr ''yes''\<rparr>)) demo_db))) = 1"
    by (simp add: update_task_def bind_args_def set_fields_def done_body_def demo_db_def ship_def
        groceries_def owned_match_def coerce_flag_def)
  show ?thesis
    using h c completion_flag_invariant[of engine_text JNull demo_db "UpdateTask 1 (PInt 1) (done_body\<lparr>b_completed := JStr ''yes''\<rparr>)" "[]"]
      completion_flag_invariant[of engine_text JNull demo_db "UpdateSubtask (PInt 2) (JNum 7)" "[]"]
    by simp
qed

section \<open>Toggling completion\<close>

lemma owned_match_set_fields:
  "owned_match u p (set_fields rt ti de pr ca du c t) = owned_match u p t"
  by (simp add: owned_match_def set_fields_def)

lemma ex_match_after_update:
  "(\<exists>t \<in> set (map (\<lambda>t. if owned_match u p t then set_fields rt ti de pr ca du c t else t) ts).
      owned_match u p t) = (\<exists>t \<in> set ts. owned_match u p t)"
proof (induction ts)
  case Nil
  show ?case by simp
next
  case (Cons a ts)
  show ?case
  proof (cases "owned_match u p a")
    case True
    then show ?thesis by (simp add: owned_match_set_fields)
  next
    case False
    then show ?thesis using Cons.IH by simp
  qed
qed

lemma completed_set_fields: "completed (set_fields rt ti de pr ca du c t) = c"
  by (simp add: set_fields_def)

lemma matched_rows_flag:
  "\<forall>t \<in> set (map (\<lambda>t. if owned_match u p t then set_fields rt ti de pr ca du c t else t) ts).
      owned_match u p t \<longrightarrow> completed t = c"
proof
  fix t
  assume "t \<in> set (map (\<lambda>t. if owned_match u p t then set_fields rt ti de pr ca du c t else t) ts)"
  then obtain x where x: "x \<in> set ts"
      "t = (if owned_match u p x then set_fields rt ti de pr ca du c x else x)"
    by auto
  show "owned_match u p t \<longrightarrow> completed t = c"
  proof (cases "owned_match u p x")
    case True
    then show ?thesis using x(2) by (simp add: completed_set_fields)
  next
    case False
    then show ?thesis using x(2) by simp
  qed
qed

lemma bindable_body_title:
  assumes "body_bindable b"
    and "bind_args 5 k [b_title b, b_description b, b_priority b, b_category b, b_due_date b]
           = r"
  shows "\<exists>ti de pr ca du. r = Inr [ti, de, pr, ca, du] \<and> bind (b_title b) = Some ti"
proof -
  obtain ti de pr ca du where bs: "bind (b_title b) = Some ti"
      "bind (b_description b) = Some de" "bind (b_priority b) = Some pr"
      "bind (b_category b) = Some ca" "bind (b_due_date b) = Some du"
    using assms(1) by (auto simp: body_bindable_def bindable_def)
  show ?thesis using bind_args5[OF bs, of k] assms(2) bs(1) by auto
qed

text \<open>
  Claim C9. Take a task of the owner whose stored flag is 0 and update it twice with
  the same fields, first with a truthy \<^verbatim>\<open>completed\<close> (such as \<^verbatim>\<open>true\<close>) and then
  with a falsy one (such as \<^verbatim>\<open>false\<close>). Afterwards the task is still there and its
  stored flag is 0 again. When the fields can be bound and the title is not null, both
  updates answer success and the flag is 1 in between.
\<close>

theorem toggle_round_trip:
  assumes "\<exists>t \<in> set (tasks s). t_id t = i \<and> user_id t = u"
    and "\<forall>t \<in> set (tasks s). t_id t = i \<and> user_id t = u \<longrightarrow> completed t = 0"
    and "truthy von" and "\<not> truthy voff"
  shows "(\<exists>t \<in> set (tasks (toggled u i b von voff s)). t_id t = i \<and> user_id t = u) \<and>
         (\<forall>t \<in> set (tasks (toggled u i b von voff s)).
             t_id t = i \<and> user_id t = u \<longrightarrow> completed t = 0) \<and>
         (body_bindable b \<and> bind (b_title b) \<noteq> Some SNull \<longrightarrow>
            fst (update_task u (PInt i) (b\<lparr>b_completed := von\<rparr>) s) = Inr Success \<and>
            (\<forall>t \<in> set (tasks (snd (update_task u (PInt i) (b\<lparr>b_completed := von\<rparr>) s))).
               t_id t = i \<and> user_id t = u \<longrightarrow> completed t = 1) \<and>
            fst (update_task u (PInt i) (b\<lparr>b_completed := voff\<rparr>)
                   (snd (update_task u (PInt i) (b\<lparr>b_completed := von\<rparr>) s))) = Inr Success)"
proof -
  let ?p = "PInt i"
  let ?on = "b\<lparr>b_completed := von\<rparr>"
  let ?off = "b\<lparr>b_completed := voff\<rparr>"
  let ?s1 = "snd (update_task u ?p ?on s)"
  let ?s2 = "snd (update_task u ?p ?off ?s1)"
  let ?args = "[b_title b, b_description b, b_priority b, b_category b, b_due_date b]"
  have om: "\<And>t. owned_match u ?p t \<longleftrightarrow> t_id t = i \<and> user_id t = u"
    by (simp add: owned_match_def)
  have ex0: "\<exists>t \<in> set (tasks s). owned_match u ?p t"
    using assms(1) by (simp add: om)
  have all0: "\<forall>t \<in> set (tasks s). owned_match u ?p t \<longrightarrow> completed t = 0"
    using assms(2) by (simp add: om)
  have on: "coerce_flag (b_completed ?on) = 1" and off: "coerce_flag (b_completed ?off) = 0"
    using assms(3,4) by (simp_all add: coerce_flag_def)
  have goal: "(\<exists>t \<in> set (tasks ?s2). owned_match u ?p t) \<and>
         (\<forall>t \<in> set (tasks ?s2). owned_match u ?p t \<longrightarrow> completed t = 0) \<and>
         (body_bindable b \<and> bind (b_title b) \<noteq> Some SNull \<longrightarrow>
            fst (update_task u ?p ?on s) = Inr Success \<and>
            (\<forall>t \<in> set (tasks ?s1). owned_match u ?p t \<longrightarrow> completed t = 1) \<and>
            fst (update_task u ?p ?off ?s1) = Inr Success)"
  proof (cases "bind_args 5 3 ?args")
    case (Inl m)
    have "?s1 = s"
      using update_task_bind_fails[of ?on m u ?p s] Inl by simp
    moreover have "snd (update_task u ?p ?off s) = s"
      using update_task_bind_fails[of ?off m u ?p s] Inl by simp
    ultimately have same: "?s2 = s" by simp
    have "\<not> body_bindable b"
      using bindable_body_title[of b 3 "Inl m"] Inl by auto
    then show ?thesis using same ex0 all0 by (simp only:) blast
  next
    case (Inr vs)
    then obtain ti de pr ca du where vs: "vs = [ti, de, pr, ca, du]"
      using bind_args_five by blast
    have args: "bind_args 5 3 ?args = Inr [ti, de, pr, ca, du]"
      using Inr vs by simp
    show ?thesis
    proof (cases "ti = SNull")
      case isnull: True
      have "?s1 = s"
        using update_task_null_title[of ?on de pr ca du s u ?p] args isnull ex0 by simp
      moreover have "snd (update_task u ?p ?off s) = s"
        using update_task_null_title[of ?off de pr ca du s u ?p] args isnull ex0 by simp
      ultimately have same: "?s2 = s" by simp
      have "\<not> (body_bindable b \<and> bind (b_title b) \<noteq> Some SNull)"
        using bindable_body_title[of b 3 "Inr [ti, de, pr, ca, du]"] args isnull by auto
      then show ?thesis using same ex0 all0 by (simp only:) blast
    next
      case nonnull: False
      have u1: "update_task u ?p ?on s =
          (Inr Success, s\<lparr>tasks := map (\<lambda>t. if owned_match u ?p t
                                then set_fields (real_text s) ti de pr ca du 1 t else t) (tasks s)\<rparr>)"
        using update_task_sets[of ?on ti de pr ca du s u ?p] args nonnull on by simp
      have t1: "tasks ?s1 = map (\<lambda>t. if owned_match u ?p t
                                then set_fields (real_text s) ti de pr ca du 1 t else t) (tasks s)"
        by (simp add: u1)
      have u2: "update_task u ?p ?off ?s1 =
          (Inr Success, ?s1\<lparr>tasks := map (\<lambda>t. if owned_match u ?p t
                                then set_fields (real_text ?s1) ti de pr ca du 0 t else t) (tasks ?s1)\<rparr>)"
        using update_task_sets[of ?off ti de pr ca du ?s1 u ?p] args nonnull off by simp
      have t2: "tasks ?s2 = map (\<lambda>t. if owned_match u ?p t
                                then set_fields (real_text ?s1) ti de pr ca du 0 t else t) (tasks ?s1)"
        by (simp add: u2)
      have e1: "\<exists>t \<in> set (tasks ?s1). owned_match u ?p t"
        unfolding t1 using ex0 by (simp only: ex_match_after_update)
      have e2: "\<exists>t \<in> set (tasks ?s2). owned_match u ?p t"
        unfolding t2 using e1 by (simp only: ex_match_after_update)
      have a1: "\<forall>t \<in> set (tasks ?s1). owned_match u ?p t \<longrightarrow> completed t = 1"
        unfolding t1 by (rule matched_rows_flag)
      have a2: "\<forall>t \<in> set (tasks ?s2). owned_match u ?p t \<longrightarrow> completed t = 0"
        unfolding t2 by (rule matched_rows_flag)
      have f1: "fst (update_task u ?p ?on s) = Inr Success"
        by (simp only: u1 fst_conv)
      have f2: "fst (update_task u ?p ?off ?s1) = Inr Success"
        by (simp only: u2 fst_conv)
      show ?thesis using e2 a2 a1 f1 f2 by blast
    qed
  qed
  show ?thesis using goal unfolding toggled_def om by blast
qed

theorem toggle_round_trip_witness:
  "(\<exists>t \<in> set (tasks demo_db). t_id t = 1 \<and> user_id t = 1) \<and>
   \<not> (\<exists>t \<in> set (tasks demo_db). t_id t = 1 \<and> user_id t = 1 \<and> completed t \<noteq> 0) \<and>
   truthy (JBool True) \<and> \<not> truthy (JBool False) \<and>
   body_bindable ship_body \<and> bind (b_title ship_body) \<noteq> Some SNull \<and>
   (\<exists>t \<in> set (tasks (toggled 1 1 ship_body (JBool True) (JBool False) demo_db)).
       t_id t = 1 \<and> user_id t = 1) \<and>
   \<not> (\<exists>t \<in> set (tasks (toggled 1 1 ship_body (JBool True) (JBool False) demo_db)).
       t_id t = 1 \<and> user_id t = 1 \<and> completed t \<noteq> 0) \<and>
   fst (update_task 1 (PInt 1) (ship_body\<lparr>b_completed := JBool True\<rparr>) demo_db) = Inr Success \<and>
   \<not> (\<exists>t \<in> set (tasks (snd (update_task 1 (PInt 1) (ship_body\<lparr>b_completed := JBool True\<rparr>) demo_db))).
       t_id t = 1 \<and> user_id t = 1 \<and> completed t \<noteq> 1) \<and>
   map completed (tasks (snd (update_task 1 (PInt 1) (ship_body\<lparr>b_completed := JBool True\<rparr>) demo_db)))
     = [1, 1] \<and>
   toggled 1 1 ship_body (JBool True) (JBool False) demo_db = demo_db"
proof -
  have h: "\<exists>t \<in> set (tasks demo_db). t_id t = 1 \<and> user_id t = 1"
    "\<forall>t \<in> set (tasks demo_db). t_id t = 1 \<and> user_id t = 1 \<longrightarrow> completed t = 0"
    "truthy (JBool True)" "\<not> truthy (JBool False)"
    by (simp_all add: demo_db_def ship_def groceries_def)
  have h2: "\<not> (\<exists>t \<in> set (tasks demo_db). t_id t = 1 \<and> user_id t = 1 \<and> completed t \<noteq> 0)"
    using h(2) by blast
  have b: "body_bindable ship_body" "bind (b_title ship_body) \<noteq> Some SNull"
    by (simp_all add: body_bindable_def bindable_def ship_body_def)
  have r: "toggled 1 1 ship_body (JBool True) (JBool False) demo_db = demo_db"
    by (simp add: toggled_def update_task_def bind_args_def ship_body_def demo_db_def ship_def
        groceries_def owned_match_def set_fields_def coerce_flag_def)
  have m: "map completed (tasks (snd (update_task 1 (PInt 1) (ship_body\<lparr>b_completed := JBool True\<rparr>) demo_db)))
     = [1, 1]"
    by (simp add: update_task_def bind_args_def ship_body_def demo_db_def ship_def groceries_def
        owned_match_def set_fields_def coerce_flag_def)
  note T = toggle_round_trip[OF h, of ship_body]
  have c0: "\<exists>t \<in> set (tasks (toggled 1 1 ship_body (JBool True) (JBool False) demo_db)).
       t_id t = 1 \<and> user_id t = 1"
    using T by blast
  have c1: "\<not> (\<exists>t \<in> set (tasks (toggled 1 1 ship_body (JBool True) (JBool False) demo_db)).
       t_id t = 1 \<and> user_id t = 1 \<and> completed t \<noteq> 0)"
    using T by blast
  have c2: "fst (update_task 1 (PInt 1) (ship_body\<lparr>b_completed := JBool True\<rparr>) demo_db) = Inr Success"
    using T b by blast
  have c3: "\<not> (\<exists>t \<in> set (tasks (snd (update_task 1 (PInt 1) (ship_body\<lparr>b_completed := JBool True\<rparr>) demo_db))).
       t_id t = 1 \<and> user_id t = 1 \<and> completed t \<noteq> 1)"
    using T b by blast
  show ?thesis using h(1) h2 h(3,4) b c0 c1 c2 c3 m r by (intro conjI)
qed

section \<open>Statistics\<close>

text \<open>
  Claim C4 fails at its boundary case. A user who has just registered has no task, and
  for that user the totals query returns \<open>total = 0\<close> but NULL, not 0, for both
  \<^verbatim>\<open>SUM\<close> columns: \<^verbatim>\<open>completed\<close> and \<^verbatim>\<open>high_priority_pending\<close>.
\<close>

theorem compute_stats_no_tasks:
  "compute_stats 864200 3 carol_db =
     \<lparr>total = 0, completed_count = None, high_priority_pending = None, weekly = []\<rparr>"
  by (simp add: compute_stats_def weekly_rows_def carol_db_def demo_db_def ship_def groceries_def)

text \<open>That database is what registering a third user leaves behind.\<close>

lemma register_carol:
  "register salted (JStr ''c@x.com'') (JStr ''pw'') JUndefined demo_db = (Inr 3, carol_db)"
  by (simp add: register_def bind_args_def carol_db_def carol_def salted_def demo_db_def ann_def
      bob_def next_id_def)

text \<open>
  For an owner with at least one task the three numbers are the counts: all tasks of
  the owner, those with \<open>completed = 1\<close>, and those with priority \<^verbatim>\<open>'high'\<close> and
  \<open>completed = 0\<close>.
\<close>

lemma sql_sum_indicator:
  "xs \<noteq> [] \<Longrightarrow> sql_sum (map (\<lambda>t. if P t then 1 else 0) xs) = Some (int (length (filter P xs)))"
proof -
  have "sum_list (map (\<lambda>t. if P t then 1 else 0) xs) = int (length (filter P xs))"
    by (induction xs) auto
  moreover assume "xs \<noteq> []"
  ultimately show ?thesis by (cases xs) auto
qed

lemma compute_stats_counts:
  assumes "filter (\<lambda>t. user_id t = u) (tasks s) \<noteq> []"
  shows "total (compute_stats now u s) = int (length (filter (\<lambda>t. user_id t = u) (tasks s))) \<and>
         completed_count (compute_stats now u s) =
           Some (int (length (filter (\<lambda>t. user_id t = u \<and> completed t = 1) (tasks s)))) \<and>
         high_priority_pending (compute_stats now u s) =
           Some (int (length (filter (\<lambda>t. user_id t = u \<and> priority t = SText ''high'' \<and> completed t = 0)
                                (tasks s))))"
  using assms sql_sum_indicator[OF assms, of "\<lambda>t. completed t = 1"]
    sql_sum_indicator[OF assms, of "\<lambda>t. priority t = SText ''high'' \<and> completed t = 0"]
  by (simp add: compute_stats_def Let_def conj_commute)

lemma window_start: "day_of now - 7 \<le> day_of c \<longleftrightarrow> 86400 * (day_of now - 7) \<le> c"
proof -
  define q where "q = c div 86400"
  define r where "r = c mod 86400"
  have split: "c = 86400 * q + r" by (simp add: q_def r_def)
  have rem: "0 \<le> r" "r < 86400" by (simp_all add: r_def)
  have "day_of c = q" by (simp add: day_of_def q_def)
  then show ?thesis using split rem by auto
qed

lemma weekly_rows_day:
  "filter (\<lambda>t. day_of (created_at t) = d) (weekly_rows now u s) =
     (if day_of now - 7 \<le> d
      then filter (\<lambda>t. user_id t = u \<and> day_of (created_at t) = d) (tasks s) else [])"
  unfolding weekly_rows_def filter_filter
  by (auto intro: filter_cong simp: filter_empty_conv)

text \<open>
  Claim C5 as stated fails: the window is not the trailing seven days. The query keeps
  the rows with \<^verbatim>\<open>created_at >= date('now', '-7 days')\<close>, and the right-hand side is
  the date, without a time, of the day seven days before today. So a task that at
  \<open>now = 1556200\<close> is more than seven times 24 hours old is counted because it was
  created on that day, and the rows can cover eight days.
\<close>

theorem weekly_window_counterexample:
  "notes_task \<in> set (tasks week_db) \<and> user_id notes_task = 1 \<and>
   created_at notes_task < 1556200 - 7 * 86400 \<and>
   day_of (created_at notes_task) = 11 \<and>
   weekly (compute_stats 1556200 1 week_db) = [(11, 2)] \<and>
   map fst (weekly (compute_stats 1556200 1 eight_days_db)) = [11, 12, 13, 14, 15, 16, 17, 18]"
  by (simp add: compute_stats_def weekly_rows_def week_db_def eight_days_db_def demo_db_def
      ship_def groceries_def notes_task_def party_task_def day_of_def)

text \<open>
  Claim C5, amended. The weekly rows of \<open>compute_stats\<close> are one row per day, no day
  twice. The count of a row is the number of the owner's tasks whose creation time
  falls on that day, it is at least 1, and the day is not before the day seven days
  before today. The window is aligned to days: it starts at 00:00 UTC of the day seven
  days before today (\<open>86400 * (day_of now - 7)\<close> seconds), so it reaches back between
  seven and eight times 24 hours. Every task of the owner created at or after that
  instant has its day among the rows, and no task created before it has.
\<close>

theorem weekly_buckets:
  "distinct (map fst (weekly (compute_stats now u s))) \<and>
   (\<forall>(d, c) \<in> set (weekly (compute_stats now u s)).
       c = int (length (filter (\<lambda>t. user_id t = u \<and> day_of (created_at t) = d) (tasks s))) \<and>
       1 \<le> c \<and> day_of now - 7 \<le> d) \<and>
   (\<forall>t \<in> set (tasks s). user_id t = u \<and> 86400 * (day_of now - 7) \<le> created_at t \<longrightarrow>
       day_of (created_at t) \<in> set (map fst (weekly (compute_stats now u s)))) \<and>
   (\<forall>t \<in> set (tasks s). user_id t = u \<and> created_at t < 86400 * (day_of now - 7) \<longrightarrow>
       day_of (created_at t) \<notin> set (map fst (weekly (compute_stats now u s))))"
proof -
  let ?recent = "weekly_rows now u s"
  let ?days = "sort (remdups (map (\<lambda>t. day_of (created_at t)) ?recent))"
  let ?W = "weekly (compute_stats now u s)"
  have W: "?W = map (\<lambda>d. (d, int (length (filter (\<lambda>t. day_of (created_at t) = d) ?recent)))) ?days"
    by (simp add: compute_stats_def Let_def)
  have keys: "map fst ?W = ?days"
    unfolding W by (simp add: comp_def)
  have days: "set ?days = {day_of (created_at t) | t. t \<in> set (tasks s) \<and> user_id t = u \<and>
                              day_of now - 7 \<le> day_of (created_at t)}"
    by (auto simp: weekly_rows_def)
  have dist: "distinct (map fst ?W)"
    unfolding keys by simp
  have per_day: "int (length (filter (\<lambda>t. day_of (created_at t) = d) ?recent)) =
                   int (length (filter (\<lambda>t. user_id t = u \<and> day_of (created_at t) = d) (tasks s))) \<and>
                 1 \<le> int (length (filter (\<lambda>t. day_of (created_at t) = d) ?recent)) \<and>
                 day_of now - 7 \<le> d" if dmem: "d \<in> set ?days" for d
  proof -
    obtain t where t: "t \<in> set (tasks s)" "user_id t = u" "day_of now - 7 \<le> d"
        "day_of (created_at t) = d"
      using dmem unfolding days by blast
    then have "t \<in> set (filter (\<lambda>t. user_id t = u \<and> day_of (created_at t) = d) (tasks s))"
      by simp
    then have "0 < length (filter (\<lambda>t. user_id t = u \<and> day_of (created_at t) = d) (tasks s))"
      by (simp only: length_pos_if_in_set)
    then have "1 \<le> int (length (filter (\<lambda>t. user_id t = u \<and> day_of (created_at t) = d) (tasks s)))"
      by linarith
    then show ?thesis using t(3) by (simp only: weekly_rows_day if_True simp_thms)
  qed
  have counts: "\<forall>(d, c) \<in> set ?W.
       c = int (length (filter (\<lambda>t. user_id t = u \<and> day_of (created_at t) = d) (tasks s))) \<and>
       1 \<le> c \<and> day_of now - 7 \<le> d"
  proof (intro ballI)
    fix x assume "x \<in> set ?W"
    then obtain d where d: "d \<in> set ?days"
        "x = (d, int (length (filter (\<lambda>t. day_of (created_at t) = d) ?recent)))"
      unfolding W by (auto simp del: set_sort set_remdups)
    show "case x of (d, c) \<Rightarrow>
       c = int (length (filter (\<lambda>t. user_id t = u \<and> day_of (created_at t) = d) (tasks s))) \<and>
       1 \<le> c \<and> day_of now - 7 \<le> d"
      using per_day[OF d(1)] unfolding d(2) by simp
  qed
  have inside: "\<forall>t \<in> set (tasks s). user_id t = u \<and> 86400 * (day_of now - 7) \<le> created_at t \<longrightarrow>
       day_of (created_at t) \<in> set (map fst ?W)"
    unfolding keys days using window_start by blast
  have before: "\<forall>t \<in> set (tasks s). user_id t = u \<and> created_at t < 86400 * (day_of now - 7) \<longrightarrow>
       day_of (created_at t) \<notin> set (map fst ?W)"
  proof (intro ballI impI)
    fix t assume "t \<in> set (tasks s)" and h: "user_id t = u \<and> created_at t < 86400 * (day_of now - 7)"
    then have "\<not> day_of now - 7 \<le> day_of (created_at t)"
      using window_start[of now "created_at t"] by simp
    then show "day_of (created_at t) \<notin> set (map fst ?W)"
      unfolding keys days by auto
  qed
  show ?thesis using dist counts inside before by blast
qed

theorem weekly_buckets_witness:
  "weekly (compute_stats 1556200 1 week_db) = [(11, 2)] \<and>
   (11, 2) \<in> set (weekly (compute_stats 1556200 1 week_db)) \<and>
   notes_task \<in> set (tasks week_db) \<and> user_id notes_task = 1 \<and>
   86400 * (day_of 1556200 - 7) \<le> created_at notes_task \<and>
   created_at notes_task < 1556200 - 7 * 86400 \<and>
   ship \<in> set (tasks week_db) \<and> user_id ship = 1 \<and>
   created_at ship < 86400 * (day_of 1556200 - 7) \<and>
   2 = int (length (filter (\<lambda>t. user_id t = 1 \<and> day_of (created_at t) = 11) (tasks week_db))) \<and>
   day_of (created_at notes_task) \<in> set (map fst (weekly (compute_stats 1556200 1 week_db))) \<and>
   day_of (created_at ship) \<notin> set (map fst (weekly (compute_stats 1556200 1 week_db)))"
proof -
  have w: "weekly (compute_stats 1556200 1 week_db) = [(11, 2)]"
    by (simp add: compute_stats_def weekly_rows_def week_db_def demo_db_def ship_def groceries_def
        notes_task_def party_task_def day_of_def)
  have m: "(11, 2) \<in> set (weekly (compute_stats 1556200 1 week_db))"
    by (simp add: w)
  have h: "notes_task \<in> set (tasks week_db)" "user_id notes_task = 1"
      "86400 * (day_of 1556200 - 7) \<le> created_at notes_task"
      "created_at notes_task < 1556200 - 7 * 86400"
      "ship \<in> set (tasks week_db)" "user_id ship = 1"
      "created_at ship < 86400 * (day_of 1556200 - 7)"
    by (simp_all add: week_db_def demo_db_def ship_def notes_task_def day_of_def)
  note T = weekly_buckets[of 1556200 1 week_db]
  have c1: "2 = int (length (filter (\<lambda>t. user_id t = 1 \<and> day_of (created_at t) = 11) (tasks week_db)))"
    using T m by blast
  have c2: "day_of (created_at notes_task) \<in> set (map fst (weekly (compute_stats 1556200 1 week_db)))"
    using T h(1,2,3) by blast
  have c3: "day_of (created_at ship) \<notin> set (map fst (weekly (compute_stats 1556200 1 week_db)))"
    using T h(5,6,7) by blast
  show ?thesis using w m h c1 c2 c3 by (intro conjI)
qed


section \<open>Listing tasks\<close>

text \<open>
  Claim C6. \<open>list_tasks\<close> returns exactly the task rows of the owner, each as often
  as the table holds it; the creation times never increase along the list (newest
  first); and every returned task carries exactly the subtask rows whose \<open>task_id\<close>
  is its id, in table order.
\<close>

theorem list_tasks_correct:
  "mset (map fst (list_tasks u s)) = mset (filter (\<lambda>t. user_id t = u) (tasks s)) \<and>
   sorted_wrt (\<lambda>a b. created_at b \<le> created_at a) (map fst (list_tasks u s)) \<and>
   map snd (list_tasks u s) =
     map (\<lambda>t. filter (\<lambda>st. task_id st = SInt (t_id t)) (subtasks s)) (map fst (list_tasks u s))"
proof -
  let ?mine = "filter (\<lambda>t. user_id t = u) (tasks s)"
  let ?ord = "sort_key (\<lambda>t. - created_at t) ?mine"
  have f: "map fst (list_tasks u s) = ?ord"
    by (simp add: list_tasks_def comp_def)
  have "sorted (map (\<lambda>t. - created_at t) ?ord)"
    by (rule sorted_sort_key)
  then have "sorted_wrt (\<lambda>a b. created_at b \<le> created_at a) ?ord"
    by (simp add: sorted_map)
  moreover have "mset ?ord = mset ?mine" by simp
  moreover have "map snd (list_tasks u s) =
     map (\<lambda>t. filter (\<lambda>st. task_id st = SInt (t_id t)) (subtasks s)) ?ord"
    by (simp add: list_tasks_def comp_def subtasks_of_def)
  ultimately show ?thesis by (simp only: f) 
qed

end
